theory Spec2Isabelle
  imports Complex_Main "HOL-Library.AList"
begin

section \<open>Strings\<close>

text \<open>
  JavaScript strings are modelled as \<^typ>\<open>string\<close> (lists of 8-bit characters); the
  requests, rule lists and provider names of this program are ASCII.  Case conversion
  maps the 26 ASCII letters and leaves every other character alone.
\<close>

definition toLowerChar :: "char \<Rightarrow> char" where
  "toLowerChar c =
     (case map_of (zip ''ABCDEFGHIJKLMNOPQRSTUVWXYZ'' ''abcdefghijklmnopqrstuvwxyz'') c of
        Some l \<Rightarrow> l
      | None \<Rightarrow> c)"

definition toUpperChar :: "char \<Rightarrow> char" where
  "toUpperChar c =
     (case map_of (zip ''abcdefghijklmnopqrstuvwxyz'' ''ABCDEFGHIJKLMNOPQRSTUVWXYZ'') c of
        Some u \<Rightarrow> u
      | None \<Rightarrow> c)"

definition toLowerCase :: "string \<Rightarrow> string" where
  "toLowerCase s = map toLowerChar s"

definition toUpperCase :: "string \<Rightarrow> string" where
  "toUpperCase s = map toUpperChar s"

text \<open>\<^verbatim>\<open>s.startsWith(p)\<close> and \<^verbatim>\<open>s.includes(p)\<close> (substring search).\<close>

fun startsWith :: "string \<Rightarrow> string \<Rightarrow> bool" where
  "startsWith s [] = True"
| "startsWith [] (p # ps) = False"
| "startsWith (c # cs) (p # ps) = (c = p \<and> startsWith cs ps)"

fun str_includes :: "string \<Rightarrow> string \<Rightarrow> bool" where
  "str_includes [] p = (p = [])"
| "str_includes (c # cs) p = (startsWith (c # cs) p \<or> str_includes cs p)"

text \<open>\<^verbatim>\<open>parts.join(sep)\<close>.\<close>

fun join :: "string \<Rightarrow> string list \<Rightarrow> string" where
  "join sep [] = []"
| "join sep [x] = x"
| "join sep (x # y # ys) = x @ sep @ join sep (y # ys)"

section \<open>Fraud detection (fraudDetection.ts)\<close>

text \<open>
  Risk scores are JavaScript numbers; they are modelled as real numbers, so the sums of
  the decimal weights below are exact.  Amounts are integers (minor units).
\<close>

record ChargeRequest =
  req_amount :: int
  req_currency :: string
  req_source :: string
  req_email :: string

record FraudRules =
  suspiciousDomains :: "string list"
  highRiskAmountThreshold :: real
  blockingThreshold :: real
  stripeThreshold :: real

datatype provider = Stripe | Paypal | Blocked

text \<open>
  The rules of \<^verbatim>\<open>src/config/fraudRules.json\<close>, as the README prints that file; a
  \<^verbatim>\<open>FraudDetectionService\<close> constructed without custom rules uses them.
\<close>

definition fraudRules :: FraudRules where
  "fraudRules =
     \<lparr> suspiciousDomains = [''.ru'', ''.tk'', ''test.com''],
       highRiskAmountThreshold = 50000,
       blockingThreshold = 0.5,
       stripeThreshold = 0.3 \<rparr>"

definition calculateAmountRisk :: "FraudRules \<Rightarrow> int \<Rightarrow> real" where
  "calculateAmountRisk rules amount =
     (if real_of_int amount > highRiskAmountThreshold rules then 0.4
      else if amount > 10000 then 0.2
      else if amount > 1000 then 0.1
      else 0.05)"

definition hasSuspiciousDomain :: "FraudRules \<Rightarrow> string \<Rightarrow> bool" where
  "hasSuspiciousDomain rules email =
     list_ex (\<lambda>domain. str_includes (toLowerCase email) (toLowerCase domain))
       (suspiciousDomains rules)"

definition calculateDomainRisk :: "FraudRules \<Rightarrow> string \<Rightarrow> real" where
  "calculateDomainRisk rules email = (if hasSuspiciousDomain rules email then 0.3 else 0)"

definition calculateCurrencyRisk :: "string \<Rightarrow> real" where
  "calculateCurrencyRisk currency =
     (if List.member [''RUB'', ''CNY'', ''KRW''] (toUpperCase currency) then 0.15
      else if toUpperCase currency \<noteq> ''USD'' then 0.05
      else 0)"

definition calculateSourceRisk :: "string \<Rightarrow> real" where
  "calculateSourceRisk source =
     (if str_includes source ''test'' \<or> str_includes source ''tok_test'' then 0.1 else 0)"

text \<open>
  \<^verbatim>\<open>calculateRiskScore\<close>: \<open>rnd\<close> is the value \<^verbatim>\<open>Math.random()\<close> returns, a number
  in \<open>[0, 1)\<close>; the jitter term is \<open>rnd * 0.1\<close>.
\<close>

definition calculateRiskScore :: "FraudRules \<Rightarrow> real \<Rightarrow> ChargeRequest \<Rightarrow> real" where
  "calculateRiskScore rules rnd request =
     (let score = 0 + rnd * 0.1;
          score = score + calculateAmountRisk rules (req_amount request);
          score = score + calculateDomainRisk rules (req_email request);
          score = score + calculateCurrencyRisk (req_currency request);
          score = score + calculateSourceRisk (req_source request)
      in min (max score 0) 1)"

definition determineProvider :: "FraudRules \<Rightarrow> real \<Rightarrow> provider" where
  "determineProvider rules riskScore =
     (if riskScore \<ge> blockingThreshold rules then Blocked
      else if riskScore \<le> stripeThreshold rules then Stripe
      else Paypal)"

definition getRiskFactors :: "FraudRules \<Rightarrow> ChargeRequest \<Rightarrow> string list" where
  "getRiskFactors rules request =
     (if real_of_int (req_amount request) > highRiskAmountThreshold rules
        then [''large amount''] else [])
     @ (if hasSuspiciousDomain rules (req_email request)
        then [''suspicious email domain''] else [])
     @ (if req_currency request \<noteq> ''USD'' then [''non-USD currency''] else [])
     @ (if str_includes (req_source request) ''test'' then [''test payment source''] else [])"

section \<open>Explanation service (llmService.ts)\<close>

subsection \<open>Number formatting\<close>

text \<open>
  \<^verbatim>\<open>x.toFixed(2)\<close>: the sign, then the integer \<open>n\<close> nearest to \<open>|x| * 100\<close> (the larger
  one of two equally near), printed with two digits after the point.  (Numbers from
  \<open>10^21\<close> on print in exponent notation in JavaScript; no score is that large.)
\<close>

definition digitChar :: "nat \<Rightarrow> char" where
  "digitChar d = ''0123456789'' ! (d mod 10)"

fun showNat :: "nat \<Rightarrow> string" where
  "showNat n = (if n < 10 then [digitChar n] else showNat (n div 10) @ [digitChar (n mod 10)])"

declare showNat.simps [simp del]

definition toFixed2 :: "real \<Rightarrow> string" where
  "toFixed2 x =
     (let n = nat \<lfloor>\<bar>x\<bar> * 100 + 1 / 2\<rfloor>
      in (if x < 0 then ''-'' else [])
         @ showNat (n div 100) @ ''.'' @ [digitChar (n mod 100 div 10), digitChar (n mod 10)])"

text \<open>\<^verbatim>\<open>s.trim()\<close>, on the ASCII white space characters.\<close>

definition isWhiteSpace :: "char \<Rightarrow> bool" where
  "isWhiteSpace c = List.member [CHR '' '', CHR 0x09, CHR 0x0A, CHR 0x0B, CHR 0x0C, CHR 0x0D] c"

definition trim :: "string \<Rightarrow> string" where
  "trim s = rev (dropWhile isWhiteSpace (rev (dropWhile isWhiteSpace s)))"

subsection \<open>The cache\<close>

text \<open>
  \<^verbatim>\<open>createCacheKey(type, data)\<close> is the type, an underscore and the JSON text of the
  data.  JSON text determines the data it prints, so a key is modelled by the data
  itself: the two operations have keys of two different forms.
\<close>

datatype cache_key =
    PaymentKey real string "string list"
  | CampaignKey string

record CacheEntry =
  response :: string
  timestamp :: int
  ttl :: int

text \<open>
  The service: its configuration, read from the environment by the constructor
  (\<open>openai\<close> tells whether a client object was created), and its cache.  Times are
  \<^verbatim>\<open>Date.now()\<close> values, milliseconds as integers.
\<close>

record LLMService =
  cacheTTL :: int
  enableLLM :: bool
  openai :: bool
  cache :: "cache_key \<Rightarrow> CacheEntry option"

definition getFromCache :: "LLMService \<Rightarrow> int \<Rightarrow> cache_key \<Rightarrow> string option \<times> LLMService" where
  "getFromCache svc now key =
     (case cache svc key of
        None \<Rightarrow> (None, svc)
      | Some cached \<Rightarrow>
          if now - timestamp cached > ttl cached
          then (None, svc\<lparr>cache := (cache svc)(key := None)\<rparr>)
          else (Some (response cached), svc))"

definition setCache :: "LLMService \<Rightarrow> int \<Rightarrow> cache_key \<Rightarrow> string \<Rightarrow> LLMService" where
  "setCache svc now key resp =
     svc\<lparr>cache := (cache svc)(key \<mapsto> \<lparr>response = resp, timestamp = now, ttl = cacheTTL svc\<rparr>)\<rparr>"

subsection \<open>Explanations\<close>

definition riskLevel :: "real \<Rightarrow> string" where
  "riskLevel riskScore =
     (if riskScore < 0.3 then ''low'' else if riskScore < 0.5 then ''moderate'' else ''high'')"

definition generateFallbackExplanation :: "real \<Rightarrow> string \<Rightarrow> string list \<Rightarrow> string" where
  "generateFallbackExplanation riskScore prov riskFactors =
     (let factorsText =
            (if length riskFactors > 0 then '' due to '' @ join '' and '' riskFactors else [])
      in if prov = ''blocked''
         then ''Transaction blocked due to '' @ riskLevel riskScore @ '' risk score (''
              @ toFixed2 riskScore @ '')'' @ factorsText @ ''.''
         else ''Payment routed to '' @ toUpperCase prov @ '' based on '' @ riskLevel riskScore
              @ '' risk score ('' @ toFixed2 riskScore @ '')'' @ factorsText @ ''.'')"

text \<open>
  The template as the specification words it, for comparison with the function above:
  \<^verbatim>\<open>{Transaction blocked|Payment routed to PROVIDER} due to {risk-level} risk score (X.XX){optional factor clause}\<close>.
\<close>

definition spec_fallback_template :: "real \<Rightarrow> string \<Rightarrow> string \<Rightarrow> string" where
  "spec_fallback_template riskScore prov factorClause =
     (if prov = ''blocked'' then ''Transaction blocked''
      else ''Payment routed to '' @ toUpperCase prov)
     @ '' due to '' @ riskLevel riskScore @ '' risk score ('' @ toFixed2 riskScore @ '')''
     @ factorClause"

text \<open>
  What the awaited call to the external generator does: it throws (network failure,
  malformed response), or it returns with the optional text
  \<^verbatim>\<open>response.choices[0]?.message?.content\<close>.
\<close>

datatype api_result = ApiError | ApiContent "string option"

text \<open>
  \<^verbatim>\<open>generatePaymentExplanation\<close>.  \<open>tRead\<close> and \<open>tWrite\<close> are the two \<^verbatim>\<open>Date.now()\<close>
  readings, of \<^verbatim>\<open>getFromCache\<close> before the call and of \<^verbatim>\<open>setCache\<close> after it.  The
  result is the explanation, the service afterwards, and whether the external call
  was made.  A cached text counts as found when it is neither null nor empty
  (\<^verbatim>\<open>if (cached)\<close>); the key leaves the request out, as the source does.
\<close>

definition generatePaymentExplanation ::
    "LLMService \<Rightarrow> int \<Rightarrow> int \<Rightarrow> api_result \<Rightarrow> ChargeRequest \<Rightarrow> real \<Rightarrow> string \<Rightarrow> string list
       \<Rightarrow> string \<times> LLMService \<times> bool" where
  "generatePaymentExplanation svc tRead tWrite api request riskScore prov riskFactors =
     (if \<not> enableLLM svc \<or> \<not> openai svc
      then (generateFallbackExplanation riskScore prov riskFactors, svc, False)
      else
        let cacheKey = PaymentKey riskScore prov riskFactors;
            (cached, svc1) = getFromCache svc tRead cacheKey
        in if cached \<noteq> None \<and> cached \<noteq> Some []
           then (the cached, svc1, False)
           else
             (case api of
                ApiError \<Rightarrow> (generateFallbackExplanation riskScore prov riskFactors, svc1, True)
              | ApiContent content \<Rightarrow>
                  let explanation =
                        (case content of
                           None \<Rightarrow> generateFallbackExplanation riskScore prov riskFactors
                         | Some c \<Rightarrow>
                             if trim c \<noteq> [] then trim c
                             else generateFallbackExplanation riskScore prov riskFactors)
                  in (explanation, setCache svc1 tWrite cacheKey explanation, True)))"

definition clearExpiredCache :: "LLMService \<Rightarrow> int \<Rightarrow> LLMService" where
  "clearExpiredCache svc now =
     svc\<lparr>cache := (\<lambda>key.
        case cache svc key of
          None \<Rightarrow> None
        | Some cached \<Rightarrow> if now - timestamp cached > ttl cached then None else Some cached)\<rparr>"

section \<open>Payment service (paymentService.ts)\<close>

datatype status = Success | Failed | StatusBlocked

definition providerName :: "provider \<Rightarrow> string" where
  "providerName p = (case p of Stripe \<Rightarrow> ''stripe'' | Paypal \<Rightarrow> ''paypal'' | Blocked \<Rightarrow> ''blocked'')"

definition statusName :: "status \<Rightarrow> string" where
  "statusName st =
     (case st of Success \<Rightarrow> ''success'' | Failed \<Rightarrow> ''failed'' | StatusBlocked \<Rightarrow> ''blocked'')"

record Metadata =
  riskFactors :: "string list"
  userAgent :: string
  ipAddress :: string

record Transaction =
  tx_id :: string
  tx_amount :: int
  tx_currency :: string
  tx_source :: string
  tx_email :: string
  tx_provider :: provider
  tx_status :: status
  tx_riskScore :: real
  tx_explanation :: string
  tx_timestamp :: int
  tx_metadata :: Metadata

record ChargeResponse =
  transactionId :: string
  resp_provider :: provider
  resp_status :: status
  resp_riskScore :: real
  resp_explanation :: string

text \<open>
  The service owns the ledger, the rules of its fraud detection and its own
  explanation service.  The constructor takes the default rules.
\<close>

record PaymentService =
  transactions :: "Transaction list"
  fraudDetection :: FraudRules
  llmService :: LLMService

definition newPaymentService :: "LLMService \<Rightarrow> PaymentService" where
  "newPaymentService llm =
     \<lparr> transactions = [], fraudDetection = fraudRules, llmService = llm \<rparr>"

text \<open>
  What one call of \<^verbatim>\<open>processCharge\<close> takes from outside: the random draw, the text
  of the fresh UUID, the outcome of the external call, and the clock readings of the
  cache read, the cache write and the transaction's timestamp.
\<close>

record ChargeEnv =
  env_random :: real
  env_uuid :: string
  env_api :: api_result
  env_tRead :: int
  env_tWrite :: int
  env_tStamp :: int

definition generateTransactionId :: "string \<Rightarrow> string" where
  "generateTransactionId uuid = ''txn_'' @ take 8 uuid"

text \<open>\<^verbatim>\<open>Math.round(x)\<close>: the nearest integer, halves rounded up.\<close>

definition mathRound :: "real \<Rightarrow> real" where
  "mathRound x = real_of_int \<lfloor>x + 1 / 2\<rfloor>"

definition processCharge ::
    "ChargeEnv \<Rightarrow> ChargeRequest \<Rightarrow> PaymentService \<Rightarrow> ChargeResponse \<times> PaymentService" where
  "processCharge env request ps =
     (let riskScore = calculateRiskScore (fraudDetection ps) (env_random env) request;
          prov = determineProvider (fraudDetection ps) riskScore;
          factors = getRiskFactors (fraudDetection ps) request;
          txnId = generateTransactionId (env_uuid env);
          st = (if prov = Blocked then StatusBlocked else Success);
          (explanation, llm, called) =
             generatePaymentExplanation (llmService ps) (env_tRead env) (env_tWrite env)
               (env_api env) request riskScore (providerName prov) factors;
          transaction =
            \<lparr> tx_id = txnId,
              tx_amount = req_amount request,
              tx_currency = req_currency request,
              tx_source = req_source request,
              tx_email = req_email request,
              tx_provider = prov,
              tx_status = st,
              tx_riskScore = riskScore,
              tx_explanation = explanation,
              tx_timestamp = env_tStamp env,
              tx_metadata =
                \<lparr> riskFactors = factors,
                  userAgent = ''PaymentGatewayProxy/1.0'',
                  ipAddress = ''127.0.0.1'' \<rparr> \<rparr>
      in (\<lparr> transactionId = txnId,
            resp_provider = prov,
            resp_status = st,
            resp_riskScore = mathRound (riskScore * 100) / 100,
            resp_explanation = explanation \<rparr>,
          ps\<lparr>transactions := transactions ps @ [transaction], llmService := llm\<rparr>))"

text \<open>
  \<^verbatim>\<open>getFilteredTransactions\<close>.  A filter that is absent (or, for the two strings,
  empty) is skipped.  When every filter is skipped, \<^verbatim>\<open>filtered\<close> is still the ledger
  array itself, and the final \<^verbatim>\<open>sort\<close> reorders the ledger in place.  The sort is
  stable, newest first.
\<close>

record Filters =
  f_provider :: "string option"
  f_status :: "string option"
  f_minAmount :: "int option"
  f_maxAmount :: "int option"
  f_startDate :: "int option"
  f_endDate :: "int option"

definition truthy :: "string option \<Rightarrow> bool" where
  "truthy s = (s \<noteq> None \<and> s \<noteq> Some [])"

definition newestFirst :: "Transaction list \<Rightarrow> Transaction list" where
  "newestFirst ts = sort_key (\<lambda>t. - tx_timestamp t) ts"

definition noFilter :: "Filters \<Rightarrow> bool" where
  "noFilter fs =
     (\<not> truthy (f_provider fs) \<and> \<not> truthy (f_status fs) \<and> f_minAmount fs = None \<and>
      f_maxAmount fs = None \<and> f_startDate fs = None \<and> f_endDate fs = None)"

definition applyFilters :: "Filters \<Rightarrow> Transaction list \<Rightarrow> Transaction list" where
  "applyFilters fs ts =
     (let ts = (if truthy (f_provider fs)
                then filter (\<lambda>t. Some (providerName (tx_provider t)) = f_provider fs) ts else ts);
          ts = (if truthy (f_status fs)
                then filter (\<lambda>t. Some (statusName (tx_status t)) = f_status fs) ts else ts);
          ts = (case f_minAmount fs of None \<Rightarrow> ts | Some m \<Rightarrow> filter (\<lambda>t. tx_amount t \<ge> m) ts);
          ts = (case f_maxAmount fs of None \<Rightarrow> ts | Some m \<Rightarrow> filter (\<lambda>t. tx_amount t \<le> m) ts);
          ts = (case f_startDate fs of None \<Rightarrow> ts | Some d \<Rightarrow> filter (\<lambda>t. tx_timestamp t \<ge> d) ts);
          ts = (case f_endDate fs of None \<Rightarrow> ts | Some d \<Rightarrow> filter (\<lambda>t. tx_timestamp t \<le> d) ts)
      in ts)"

definition getFilteredTransactions ::
    "Filters \<Rightarrow> PaymentService \<Rightarrow> Transaction list \<times> PaymentService" where
  "getFilteredTransactions fs ps =
     (newestFirst (applyFilters fs (transactions ps)),
      if noFilter fs then ps\<lparr>transactions := newestFirst (transactions ps)\<rparr> else ps)"

definition clearTransactions :: "PaymentService \<Rightarrow> PaymentService" where
  "clearTransactions ps = ps\<lparr>transactions := []\<rparr>"

text \<open>
  The operations of the service that can change it, and a run of them from the state
  the constructor builds.  (The other queries copy the ledger and leave it alone.)
\<close>

datatype payment_op =
    ProcessCharge ChargeEnv ChargeRequest
  | GetFilteredTransactions Filters
  | ClearTransactions

fun payment_step :: "PaymentService \<Rightarrow> payment_op \<Rightarrow> PaymentService" where
  "payment_step ps (ProcessCharge env request) = snd (processCharge env request ps)"
| "payment_step ps (GetFilteredTransactions fs) = snd (getFilteredTransactions fs ps)"
| "payment_step ps ClearTransactions = clearTransactions ps"

definition payment_run :: "LLMService \<Rightarrow> payment_op list \<Rightarrow> PaymentService" where
  "payment_run llm ops = foldl payment_step (newPaymentService llm) ops"

text \<open>What the ledger keeps true of each record.\<close>

definition provider_status_ok :: "Transaction \<Rightarrow> bool" where
  "provider_status_ok t =
     ((tx_provider t = Blocked) = (tx_status t = StatusBlocked) \<and>
      (tx_provider t = Blocked \<or> tx_status t = Success))"

section \<open>Dates\<close>

text \<open>
  A \<^verbatim>\<open>Date\<close> is its time value, the milliseconds since the epoch, an integer.  The
  getters and setters below follow the ECMAScript definitions (\<open>Day\<close>,
  \<open>TimeWithinDay\<close>, \<open>DayFromYear\<close>, \<open>YearFromTime\<close>, \<open>MonthFromTime\<close>,
  \<open>DateFromTime\<close>, \<open>MakeDay\<close>, \<open>MakeDate\<close>, \<open>LocalTime\<close>, \<open>UTC\<close>).  Months count from 0.
\<close>

definition msPerDay :: int where
  "msPerDay = 86400000"

definition Day :: "int \<Rightarrow> int" where
  "Day t = t div msPerDay"

definition TimeWithinDay :: "int \<Rightarrow> int" where
  "TimeWithinDay t = t mod msPerDay"

definition DaysInYear :: "int \<Rightarrow> int" where
  "DaysInYear y =
     (if y mod 4 \<noteq> 0 then 365 else if y mod 100 \<noteq> 0 then 366
      else if y mod 400 \<noteq> 0 then 365 else 366)"

definition DayFromYear :: "int \<Rightarrow> int" where
  "DayFromYear y =
     365 * (y - 1970) + (y - 1969) div 4 - (y - 1901) div 100 + (y - 1601) div 400"

text \<open>
  The year of a day: the largest \<open>y\<close> with \<open>DayFromYear y \<le> d\<close>.  A year has 365 or
  366 days, which bounds the candidates.
\<close>

definition YearFromDay :: "int \<Rightarrow> int" where
  "YearFromDay d =
     (let lo = 1970 + min (d div 365) (d div 366);
          hi = 1970 + max (d div 365) (d div 366)
      in case find (\<lambda>y. DayFromYear y \<le> d) (rev [lo..hi]) of
           Some y \<Rightarrow> y
         | None \<Rightarrow> lo)"

definition YearFromTime :: "int \<Rightarrow> int" where
  "YearFromTime t = YearFromDay (Day t)"

definition InLeapYear :: "int \<Rightarrow> int" where
  "InLeapYear y = (if DaysInYear y = 366 then 1 else 0)"

definition DayWithinYear :: "int \<Rightarrow> int" where
  "DayWithinYear t = Day t - DayFromYear (YearFromTime t)"

text \<open>The day of the year on which month \<open>m\<close> starts; \<open>l\<close> is 1 in a leap year.\<close>

definition monthStart :: "int \<Rightarrow> int \<Rightarrow> int" where
  "monthStart m l =
     (if m \<le> 0 then 0 else if m = 1 then 31
      else l + (if m = 2 then 59 else if m = 3 then 90 else if m = 4 then 120
                else if m = 5 then 151 else if m = 6 then 181 else if m = 7 then 212
                else if m = 8 then 243 else if m = 9 then 273 else if m = 10 then 304
                else 334))"

definition MonthFromTime :: "int \<Rightarrow> int" where
  "MonthFromTime t =
     (let d = DayWithinYear t; l = InLeapYear (YearFromTime t)
      in if d < 31 then 0 else if d < 59 + l then 1 else if d < 90 + l then 2
         else if d < 120 + l then 3 else if d < 151 + l then 4 else if d < 181 + l then 5
         else if d < 212 + l then 6 else if d < 243 + l then 7 else if d < 273 + l then 8
         else if d < 304 + l then 9 else if d < 334 + l then 10 else 11)"

definition DateFromTime :: "int \<Rightarrow> int" where
  "DateFromTime t =
     DayWithinYear t - monthStart (MonthFromTime t) (InLeapYear (YearFromTime t)) + 1"

definition MakeDay :: "int \<Rightarrow> int \<Rightarrow> int \<Rightarrow> int" where
  "MakeDay year month date =
     (let ym = year + month div 12; mn = month mod 12
      in DayFromYear ym + monthStart mn (InLeapYear ym) + date - 1)"

definition MakeDate :: "int \<Rightarrow> int \<Rightarrow> int" where
  "MakeDate day time = day * msPerDay + time"

text \<open>
  The time zone of the host.  ECMAScript leaves the offset of local time from UTC to
  the host, as \<open>LocalTZA(t, isUTC)\<close>: the first component below is the offset at a UTC
  time value (\<open>isUTC\<close> true), the second the offset at a local time value (\<open>isUTC\<close>
  false; a local time that a clock change skips or repeats has the offset the host
  picks).  A zone moves its offset by an hour or so when daylight saving time starts
  or ends; the type asks only that two offsets of a zone differ by less than a day.
\<close>

typedef TimeZone =
  "{z :: (int \<Rightarrow> int) \<times> (int \<Rightarrow> int). \<forall>t u. \<bar>snd z u - fst z t\<bar> < msPerDay}"
proof
  show "(\<lambda>t. 0, \<lambda>u. 0) \<in>
      {z :: (int \<Rightarrow> int) \<times> (int \<Rightarrow> int). \<forall>t u. \<bar>snd z u - fst z t\<bar> < msPerDay}"
    by (simp add: msPerDay_def)
qed

setup_lifting type_definition_TimeZone

lift_definition utcOffset :: "TimeZone \<Rightarrow> int \<Rightarrow> int" is fst .

lift_definition localOffset :: "TimeZone \<Rightarrow> int \<Rightarrow> int" is snd .

definition LocalTime :: "TimeZone \<Rightarrow> int \<Rightarrow> int" where
  "LocalTime tz t = t + utcOffset tz t"

definition UTC :: "TimeZone \<Rightarrow> int \<Rightarrow> int" where
  "UTC tz t = t - localOffset tz t"

text \<open>
  The getters read the local time of the date; the setters rebuild the local time and
  convert it back.
\<close>

definition getDate :: "TimeZone \<Rightarrow> int \<Rightarrow> int" where
  "getDate tz t = DateFromTime (LocalTime tz t)"

definition getMonth :: "TimeZone \<Rightarrow> int \<Rightarrow> int" where
  "getMonth tz t = MonthFromTime (LocalTime tz t)"

definition getFullYear :: "TimeZone \<Rightarrow> int \<Rightarrow> int" where
  "getFullYear tz t = YearFromTime (LocalTime tz t)"

definition setDate :: "TimeZone \<Rightarrow> int \<Rightarrow> int \<Rightarrow> int" where
  "setDate tz t dt =
     (let l = LocalTime tz t
      in UTC tz (MakeDate (MakeDay (YearFromTime l) (MonthFromTime l) dt) (TimeWithinDay l)))"

definition setMonth :: "TimeZone \<Rightarrow> int \<Rightarrow> int \<Rightarrow> int" where
  "setMonth tz t m =
     (let l = LocalTime tz t
      in UTC tz (MakeDate (MakeDay (YearFromTime l) m (DateFromTime l)) (TimeWithinDay l)))"

definition setFullYear :: "TimeZone \<Rightarrow> int \<Rightarrow> int \<Rightarrow> int" where
  "setFullYear tz t y =
     (let l = LocalTime tz t
      in UTC tz (MakeDate (MakeDay y (MonthFromTime l) (DateFromTime l)) (TimeWithinDay l)))"

text \<open>
  Two zones: UTC, and America/New_York around the end of daylight saving time on
  5 November 2023 (06:00 UTC, when 02:00 local time becomes 01:00): four hours behind
  UTC before, five hours after.
\<close>

lift_definition utcZone :: TimeZone is "(\<lambda>t. 0, \<lambda>u. 0)"
  by (simp add: msPerDay_def)

lift_definition newYorkAutumn2023 :: TimeZone is
  "(\<lambda>t. if t < 1699164000000 then - 14400000 else - 18000000,
    \<lambda>u. if u < 1699149600000 then - 14400000 else - 18000000)"
  by (simp add: msPerDay_def)

text \<open>The calendar's length of month \<open>m\<close> of year \<open>y\<close>.\<close>

definition DaysInMonth :: "int \<Rightarrow> int \<Rightarrow> int" where
  "DaysInMonth y m =
     (if m = 1 then 28 + InLeapYear y
      else if m = 3 \<or> m = 5 \<or> m = 8 \<or> m = 10 then 30
      else 31)"

section \<open>Subscription service (subscriptionService.ts)\<close>

text \<open>
  The type of an interval is the union of four string literals; the \<^verbatim>\<open>default\<close>
  branches of the two \<^verbatim>\<open>switch\<close> statements are not reached by a value of this type.
\<close>

datatype interval = Daily | Weekly | Monthly | Yearly

record SubscriptionRequest =
  sreq_donorId :: string
  sreq_amount :: int
  sreq_currency :: string
  sreq_interval :: interval
  sreq_campaignDescription :: string

record CampaignAnalysis =
  an_tags :: "string list"
  an_summary :: string

record Subscription =
  sub_id :: string
  donorId :: string
  sub_amount :: int
  sub_currency :: string
  sub_interval :: interval
  campaignDescription :: string
  tags :: "string list"
  summary :: string
  createdAt :: int
  lastChargedAt :: "int option"
  nextChargeAt :: int
  isActive :: bool

datatype charge_status = ChargeSuccess | ChargeFailed

record SubscriptionTransaction =
  stx_id :: string
  subscriptionId :: string
  stx_donorId :: string
  stx_amount :: int
  stx_currency :: string
  stx_status :: charge_status
  stx_timestamp :: int
  stx_type :: string

text \<open>
  The \<^verbatim>\<open>Map\<close> from donor to subscription keeps its keys in insertion order, and
  setting an existing key keeps the key's place: an association list with
  \<^const>\<open>AList.update\<close>.  A subscription object is reached through the entry of its
  donor only, so a reference to the object is modelled by that key.
\<close>

record SubscriptionService =
  subscriptions :: "(string \<times> Subscription) list"
  sub_transactions :: "SubscriptionTransaction list"

definition newSubscriptionService :: SubscriptionService where
  "newSubscriptionService = \<lparr> subscriptions = [], sub_transactions = [] \<rparr>"

text \<open>
  \<^verbatim>\<open>calculateNextChargeDate\<close>, with the host's zone \<open>tz\<close>, in which the getters and
  setters of \<^verbatim>\<open>Date\<close> work.
\<close>

definition calculateNextChargeDate :: "TimeZone \<Rightarrow> interval \<Rightarrow> int \<Rightarrow> int" where
  "calculateNextChargeDate tz iv baseDate =
     (case iv of
        Daily \<Rightarrow> setDate tz baseDate (getDate tz baseDate + 1)
      | Weekly \<Rightarrow> setDate tz baseDate (getDate tz baseDate + 7)
      | Monthly \<Rightarrow> setMonth tz baseDate (getMonth tz baseDate + 1)
      | Yearly \<Rightarrow> setFullYear tz baseDate (getFullYear tz baseDate + 1))"

text \<open>
  The calendar's number of days from the local time \<open>l\<close> to the same date and time one
  interval later: a day, a week, the length of the month \<open>l\<close> lies in, or the length
  of the year ahead (the current year's for a date in January or February, the next
  year's after that).
\<close>

definition intervalDays :: "interval \<Rightarrow> int \<Rightarrow> int" where
  "intervalDays iv l =
     (case iv of
        Daily \<Rightarrow> 1
      | Weekly \<Rightarrow> 7
      | Monthly \<Rightarrow> DaysInMonth (YearFromTime l) (MonthFromTime l)
      | Yearly \<Rightarrow>
          if MonthFromTime l \<le> 1 then DaysInYear (YearFromTime l)
          else DaysInYear (YearFromTime l + 1))"

text \<open>
  What \<^verbatim>\<open>createSubscription\<close> takes from outside: the analysis the awaited
  \<^verbatim>\<open>analyzeCampaign\<close> resolves to, the text of the fresh UUID, and two clock readings,
  in program order: \<^verbatim>\<open>new Date()\<close> for \<^verbatim>\<open>createdAt\<close>, then the \<^verbatim>\<open>new Date()\<close> that
  is the default base date of \<^verbatim>\<open>calculateNextChargeDate\<close>.
\<close>

record CreateEnv =
  ce_analysis :: CampaignAnalysis
  ce_uuid :: string
  ce_tCreated :: int
  ce_tBase :: int

definition generateSubscriptionId :: "string \<Rightarrow> string" where
  "generateSubscriptionId uuid = ''sub_'' @ take 8 uuid"

definition createSubscription ::
    "TimeZone \<Rightarrow> CreateEnv \<Rightarrow> SubscriptionRequest \<Rightarrow> SubscriptionService
       \<Rightarrow> Subscription \<times> SubscriptionService" where
  "createSubscription tz env request svc =
     (let subscription =
            \<lparr> sub_id = generateSubscriptionId (ce_uuid env),
              donorId = sreq_donorId request,
              sub_amount = sreq_amount request,
              sub_currency = sreq_currency request,
              sub_interval = sreq_interval request,
              campaignDescription = sreq_campaignDescription request,
              tags = an_tags (ce_analysis env),
              summary = an_summary (ce_analysis env),
              createdAt = ce_tCreated env,
              lastChargedAt = None,
              nextChargeAt =
                calculateNextChargeDate tz (sreq_interval request) (ce_tBase env),
              isActive = True \<rparr>
      in (subscription,
          svc\<lparr>subscriptions :=
                AList.update (sreq_donorId request) subscription (subscriptions svc)\<rparr>))"

definition cancelSubscription :: "string \<Rightarrow> SubscriptionService \<Rightarrow> bool \<times> SubscriptionService" where
  "cancelSubscription donor svc =
     (case map_of (subscriptions svc) donor of
        None \<Rightarrow> (False, svc)
      | Some subscription \<Rightarrow>
          (True,
           svc\<lparr>subscriptions :=
                 AList.update donor (subscription\<lparr>isActive := False\<rparr>) (subscriptions svc)\<rparr>))"

definition getActiveSubscriptions :: "SubscriptionService \<Rightarrow> Subscription list" where
  "getActiveSubscriptions svc =
     sort_key (\<lambda>sub. - createdAt sub) (filter isActive (map snd (subscriptions svc)))"

definition getSubscriptionByDonorId :: "string \<Rightarrow> SubscriptionService \<Rightarrow> Subscription option" where
  "getSubscriptionByDonorId donor svc = map_of (subscriptions svc) donor"

text \<open>
  What one charge takes from outside: the random draw, the text of the fresh UUID and
  the three clock readings (the transaction's timestamp, \<^verbatim>\<open>lastChargedAt\<close>, the base
  date of the next charge).
\<close>

record AttemptEnv =
  ae_random :: real
  ae_uuid :: string
  ae_tStamp :: int
  ae_tLast :: int
  ae_tBase :: int

definition chargeSubscription ::
    "TimeZone \<Rightarrow> AttemptEnv \<Rightarrow> string \<Rightarrow> SubscriptionService \<Rightarrow> SubscriptionService" where
  "chargeSubscription tz env donor svc =
     (case map_of (subscriptions svc) donor of
        None \<Rightarrow> svc
      | Some subscription \<Rightarrow>
          let success = (ae_random env > 0.05);
              transaction =
                \<lparr> stx_id = generateTransactionId (ae_uuid env),
                  subscriptionId = sub_id subscription,
                  stx_donorId = donorId subscription,
                  stx_amount = sub_amount subscription,
                  stx_currency = sub_currency subscription,
                  stx_status = (if success then ChargeSuccess else ChargeFailed),
                  stx_timestamp = ae_tStamp env,
                  stx_type = ''recurring'' \<rparr>;
              svc1 = svc\<lparr>sub_transactions := sub_transactions svc @ [transaction]\<rparr>
          in if success
             then svc1\<lparr>subscriptions :=
                        AList.update donor
                          (subscription\<lparr>lastChargedAt := Some (ae_tLast env),
                             nextChargeAt :=
                               calculateNextChargeDate tz (sub_interval subscription)
                                 (ae_tBase env)\<rparr>)
                          (subscriptions svc1)\<rparr>
             else svc1)"

text \<open>
  \<^verbatim>\<open>processRecurringCharges\<close>: \<open>now\<close> is the clock reading at the start of the sweep;
  the loop runs over the snapshot \<^verbatim>\<open>getActiveSubscriptions()\<close> took, and its body
  charges the subscription when \<^verbatim>\<open>now >= subscription.nextChargeAt\<close>.  A subscription
  occurs once in the snapshot, so what its charge takes from outside is given per donor.
\<close>

definition chargeIfDue ::
    "TimeZone \<Rightarrow> int \<Rightarrow> AttemptEnv \<Rightarrow> string \<Rightarrow> SubscriptionService
       \<Rightarrow> SubscriptionService" where
  "chargeIfDue tz now env donor svc =
     (case map_of (subscriptions svc) donor of
        None \<Rightarrow> svc
      | Some subscription \<Rightarrow>
          if now \<ge> nextChargeAt subscription then chargeSubscription tz env donor svc
          else svc)"

fun chargeDue ::
    "TimeZone \<Rightarrow> int \<Rightarrow> (string \<Rightarrow> AttemptEnv) \<Rightarrow> string list \<Rightarrow> SubscriptionService
       \<Rightarrow> SubscriptionService" where
  "chargeDue tz now envs [] svc = svc"
| "chargeDue tz now envs (donor # donors) svc =
     chargeDue tz now envs donors (chargeIfDue tz now (envs donor) donor svc)"

definition processRecurringCharges ::
    "TimeZone \<Rightarrow> int \<Rightarrow> (string \<Rightarrow> AttemptEnv) \<Rightarrow> SubscriptionService
       \<Rightarrow> SubscriptionService" where
  "processRecurringCharges tz now envs svc =
     chargeDue tz now envs (map donorId (getActiveSubscriptions svc)) svc"

definition triggerChargeProcessing ::
    "TimeZone \<Rightarrow> int \<Rightarrow> (string \<Rightarrow> AttemptEnv) \<Rightarrow> SubscriptionService
       \<Rightarrow> SubscriptionService" where
  "triggerChargeProcessing tz now envs svc = processRecurringCharges tz now envs svc"

definition clearAll :: "SubscriptionService \<Rightarrow> SubscriptionService" where
  "clearAll svc = svc\<lparr>subscriptions := [], sub_transactions := []\<rparr>"

text \<open>
  The operations of the service that can change it, and a run of them on a host with
  the zone \<open>tz\<close>.
\<close>

datatype subscription_op =
    CreateSubscription CreateEnv SubscriptionRequest
  | CancelSubscription string
  | Sweep int "string \<Rightarrow> AttemptEnv"
  | ClearAll

fun subscription_step ::
    "TimeZone \<Rightarrow> SubscriptionService \<Rightarrow> subscription_op \<Rightarrow> SubscriptionService" where
  "subscription_step tz svc (CreateSubscription env request) =
     snd (createSubscription tz env request svc)"
| "subscription_step tz svc (CancelSubscription donor) = snd (cancelSubscription donor svc)"
| "subscription_step tz svc (Sweep now envs) = processRecurringCharges tz now envs svc"
| "subscription_step tz svc ClearAll = clearAll svc"

definition subscription_run :: "TimeZone \<Rightarrow> subscription_op list \<Rightarrow> SubscriptionService" where
  "subscription_run tz ops = foldl (subscription_step tz) newSubscriptionService ops"

text \<open>
  What the service keeps true of its map: the keys are distinct, and each subscription
  is stored under its own donor.
\<close>

definition service_wf :: "SubscriptionService \<Rightarrow> bool" where
  "service_wf svc =
     (distinct (map fst (subscriptions svc)) \<and>
      list_all (\<lambda>entry. donorId (snd entry) = fst entry) (subscriptions svc))"

text \<open>
  The charge attempts a ledger records for a donor, and the part of the ledger that an
  operation has added.
\<close>

definition attemptsFor :: "string \<Rightarrow> SubscriptionTransaction list \<Rightarrow> SubscriptionTransaction list" where
  "attemptsFor donor txs = filter (\<lambda>t. stx_donorId t = donor) txs"

definition newTransactions ::
    "SubscriptionService \<Rightarrow> SubscriptionService \<Rightarrow> SubscriptionTransaction list" where
  "newTransactions before after =
     drop (length (sub_transactions before)) (sub_transactions after)"

section \<open>Example inputs\<close>

text \<open>The two charge requests of the test suite, and the surroundings of example runs.\<close>

definition visaRequest :: ChargeRequest where
  "visaRequest =
     \<lparr> req_amount = 500, req_currency = ''USD'', req_source = ''tok_visa'',
       req_email = ''user@gmail.com'' \<rparr>"

definition riskyRequest :: ChargeRequest where
  "riskyRequest =
     \<lparr> req_amount = 100000, req_currency = ''USD'', req_source = ''tok_test'',
       req_email = ''user@test.com'' \<rparr>"

definition llmOff :: LLMService where
  "llmOff = \<lparr> cacheTTL = 300000, enableLLM = False, openai = False, cache = (\<lambda>k. None) \<rparr>"


definition chargeEnv0 :: ChargeEnv where
  "chargeEnv0 =
     \<lparr> env_random = 0.5, env_uuid = ''0a1b2c3d-0000'', env_api = ApiError,
       env_tRead = 10, env_tWrite = 20, env_tStamp = 30 \<rparr>"

definition weeklyRequest :: SubscriptionRequest where
  "weeklyRequest =
     \<lparr> sreq_donorId = ''donor_1'', sreq_amount = 1500, sreq_currency = ''USD'',
       sreq_interval = Weekly,
       sreq_campaignDescription = ''Clean water for schools in Nepal'' \<rparr>"

definition analysis0 :: CampaignAnalysis where
  "analysis0 =
     \<lparr> an_tags = [''clean water'', ''education'', ''nepal''],
       an_summary = ''Clean water for schools in Nepal'' \<rparr>"

text \<open>The clock ticks once between the two readings of this creation.\<close>

definition createEnv0 :: CreateEnv where
  "createEnv0 =
     \<lparr> ce_analysis = analysis0, ce_uuid = ''9f8e7d6c-1111'',
       ce_tCreated = 1700000000000, ce_tBase = 1700000000001 \<rparr>"

text \<open>A creation on 1 November 2023, 12:00 UTC, with both readings equal.\<close>

definition createEnvNov1 :: CreateEnv where
  "createEnvNov1 =
     \<lparr> ce_analysis = analysis0, ce_uuid = ''9f8e7d6c-1111'',
       ce_tCreated = 1698840000000, ce_tBase = 1698840000000 \<rparr>"

definition oneDonor :: SubscriptionService where
  "oneDonor = subscription_run utcZone [CreateSubscription createEnv0 weeklyRequest]"

text \<open>
  Charges at the instant \<open>t\<close> (every clock reading is \<open>t\<close>) with the random draw \<open>r\<close>.
\<close>

definition attemptAt :: "int \<Rightarrow> real \<Rightarrow> string \<Rightarrow> AttemptEnv" where
  "attemptAt t r donor =
     \<lparr> ae_random = r, ae_uuid = ''5e4d3c2b-2222'', ae_tStamp = t, ae_tLast = t, ae_tBase = t \<rparr>"

text \<open>
  Two sweeps at the instant the subscription of \<open>oneDonor\<close> falls due: the first
  charge fails (draw 0.01), the second sweep's succeeds (draw 0.5).
\<close>

definition sweepFailed :: SubscriptionService where
  "sweepFailed =
     processRecurringCharges utcZone 1700604800001 (attemptAt 1700604800001 0.01) oneDonor"

definition sweepRetried :: SubscriptionService where
  "sweepRetried =
     triggerChargeProcessing utcZone 1700604800001 (attemptAt 1700604800001 0.5) sweepFailed"

definition noFilters :: Filters where
  "noFilters =
     \<lparr> f_provider = None, f_status = None, f_minAmount = None, f_maxAmount = None,
       f_startDate = None, f_endDate = None \<rparr>"

section \<open>Properties of the fraud detection\<close>

text \<open>
  C1. \<^verbatim>\<open>determineProvider\<close> blocks a score at or above the blocking threshold (this
  test comes first); below it, a score at or below the stripe threshold goes to stripe,
  and any other score to paypal.  A score equal to the blocking threshold is blocked,
  and a score equal to the stripe threshold goes to stripe (when that threshold lies
  below the blocking threshold, so that the first test does not apply).
\<close>

theorem determineProvider_thresholds:
  "(s \<ge> blockingThreshold r \<longrightarrow> determineProvider r s = Blocked) \<and>
   (s < blockingThreshold r \<and> s \<le> stripeThreshold r \<longrightarrow> determineProvider r s = Stripe) \<and>
   (s < blockingThreshold r \<and> s > stripeThreshold r \<longrightarrow> determineProvider r s = Paypal) \<and>
   determineProvider r (blockingThreshold r) = Blocked \<and>
   (stripeThreshold r < blockingThreshold r \<longrightarrow> determineProvider r (stripeThreshold r) = Stripe)"
  by (simp add: determineProvider_def)

theorem determineProvider_thresholds_witness:
  "determineProvider fraudRules 0.5 = Blocked \<and>
   determineProvider fraudRules 0.8 = Blocked \<and>
   determineProvider fraudRules 0.3 = Stripe \<and>
   determineProvider fraudRules 0.4 = Paypal"
  using determineProvider_thresholds [where r = fraudRules and s = "0.5"]
    determineProvider_thresholds [where r = fraudRules and s = "0.8"]
    determineProvider_thresholds [where r = fraudRules and s = "0.4"]
  by (simp add: fraudRules_def)

text \<open>
  C2. Whatever the request, the rules and the random draw, the score
  \<^verbatim>\<open>calculateRiskScore\<close> returns lies in the closed interval from 0 to 1.
\<close>

theorem calculateRiskScore_bounds:
  "0 \<le> calculateRiskScore rules rnd request \<and> calculateRiskScore rules rnd request \<le> 1"
  by (simp add: calculateRiskScore_def Let_def)

section \<open>Properties of the explanation service\<close>


text \<open>
  C6, as the code has it.  The fallback explanation is
  \<^verbatim>\<open>Transaction blocked due to LEVEL risk score (X.XX)CLAUSE.\<close> for the provider
  \<^verbatim>\<open>blocked\<close> and \<^verbatim>\<open>Payment routed to PROVIDER based on LEVEL risk score (X.XX)CLAUSE.\<close>
  for any other provider (its name in upper case): the routed form says \<^verbatim>\<open>based on\<close>,
  and both end with a full stop.  The level is low below 0.3, moderate below 0.5 and
  high otherwise; the clause is \<^verbatim>\<open> due to \<close> and the factors joined by \<^verbatim>\<open> and \<close>
  when there is a factor, and empty when there is none.
\<close>

theorem generateFallbackExplanation_template:
  "generateFallbackExplanation score prov factors =
     (if prov = ''blocked'' then ''Transaction blocked due to ''
      else ''Payment routed to '' @ toUpperCase prov @ '' based on '')
     @ (if score < 0.3 then ''low'' else if score < 0.5 then ''moderate'' else ''high'')
     @ '' risk score ('' @ toFixed2 score @ '')''
     @ (if factors = [] then [] else '' due to '' @ join '' and '' factors)
     @ ''.''"
  by (simp add: generateFallbackExplanation_def riskLevel_def)

theorem generateFallbackExplanation_template_witness:
  "generateFallbackExplanation 0.2 ''stripe'' [] =
     ''Payment routed to STRIPE based on low risk score (0.20).'' \<and>
   generateFallbackExplanation 0.62 ''blocked'' [''large amount'', ''test payment source''] =
     ''Transaction blocked due to high risk score (0.62) due to large amount and test payment source.''"
  using generateFallbackExplanation_template [of "0.2" "''stripe''" "[]"]
    generateFallbackExplanation_template
      [of "0.62" "''blocked''" "[''large amount'', ''test payment source'']"]
  by code_simp

text \<open>
  C6 as the specification words the template fails for a routed payment: with score
  0.2, provider stripe and no factor, the code's text differs from the template's.
\<close>

theorem generateFallbackExplanation_spec_counterexample:
  "generateFallbackExplanation 0.2 ''stripe'' [] =
     ''Payment routed to STRIPE based on low risk score (0.20).'' \<and>
   spec_fallback_template 0.2 ''stripe'' [] =
     ''Payment routed to STRIPE due to low risk score (0.20)'' \<and>
   generateFallbackExplanation 0.2 ''stripe'' [] \<noteq> spec_fallback_template 0.2 ''stripe'' []"
  by code_simp









section \<open>Properties of the payment service\<close>

lemma processCharge_response:
  "fst (processCharge env request ps) =
     (let riskScore = calculateRiskScore (fraudDetection ps) (env_random env) request;
          prov = determineProvider (fraudDetection ps) riskScore
      in \<lparr> transactionId = generateTransactionId (env_uuid env),
            resp_provider = prov,
            resp_status = (if prov = Blocked then StatusBlocked else Success),
            resp_riskScore = mathRound (riskScore * 100) / 100,
            resp_explanation =
              fst (generatePaymentExplanation (llmService ps) (env_tRead env) (env_tWrite env)
                (env_api env) request riskScore (providerName prov)
                (getRiskFactors (fraudDetection ps) request)) \<rparr>)"
  by (simp add: processCharge_def Let_def split: prod.splits)

lemma processCharge_ledger:
  "transactions (snd (processCharge env request ps)) =
     transactions ps @
     [(let riskScore = calculateRiskScore (fraudDetection ps) (env_random env) request;
           prov = determineProvider (fraudDetection ps) riskScore;
           factors = getRiskFactors (fraudDetection ps) request
       in \<lparr> tx_id = generateTransactionId (env_uuid env),
             tx_amount = req_amount request,
             tx_currency = req_currency request,
             tx_source = req_source request,
             tx_email = req_email request,
             tx_provider = prov,
             tx_status = (if prov = Blocked then StatusBlocked else Success),
             tx_riskScore = riskScore,
             tx_explanation =
               fst (generatePaymentExplanation (llmService ps) (env_tRead env) (env_tWrite env)
                 (env_api env) request riskScore (providerName prov) factors),
             tx_timestamp = env_tStamp env,
             tx_metadata =
               \<lparr> riskFactors = factors,
                 userAgent = ''PaymentGatewayProxy/1.0'',
                 ipAddress = ''127.0.0.1'' \<rparr> \<rparr>)]"
  by (simp add: processCharge_def Let_def split: prod.splits)

lemma processCharge_rules:
  "fraudDetection (snd (processCharge env request ps)) = fraudDetection ps"
  by (simp add: processCharge_def Let_def split: prod.splits)

lemma payment_step_rules: "fraudDetection (payment_step ps op) = fraudDetection ps"
  by (cases op) (simp_all add: processCharge_rules getFilteredTransactions_def clearTransactions_def)

lemma foldl_payment_step_rules: "fraudDetection (foldl payment_step ps ops) = fraudDetection ps"
  by (induction ops arbitrary: ps) (simp_all add: payment_step_rules)

lemma payment_run_rules: "fraudDetection (payment_run llm ops) = fraudRules"
  by (simp add: payment_run_def foldl_payment_step_rules newPaymentService_def)

lemma visa_domain: "calculateDomainRisk fraudRules ''user@gmail.com'' = 0"
  by code_simp

lemma visa_currency: "calculateCurrencyRisk ''USD'' = 0"
  by code_simp

lemma visa_source: "calculateSourceRisk ''tok_visa'' = 0"
  by code_simp

lemma visa_amount: "calculateAmountRisk fraudRules 500 = 0.05"
  by (simp add: calculateAmountRisk_def fraudRules_def)

lemma visa_score:
  "calculateRiskScore fraudRules rnd visaRequest = min (max (rnd * 0.1 + 0.05) 0) 1"
  by (simp add: calculateRiskScore_def visaRequest_def visa_domain visa_currency visa_source
      visa_amount)

text \<open>
  C8. A payment service built by the constructor (default rules), after any run of
  operations, processes the charge of 500 USD from \<^verbatim>\<open>tok_visa\<close> and
  \<^verbatim>\<open>user@gmail.com\<close>: for every random draw in \<open>[0, 1)\<close> (a jitter in \<open>[0, 0.1)\<close>) the
  response and the stored transaction have provider stripe, status success and a risk
  score below 0.3 (the response's rounded to two decimals, the transaction's exact).
\<close>

theorem visa_charge_routed_to_stripe:
  assumes "0 \<le> env_random env" and "env_random env < 1"
  shows "resp_provider (fst (processCharge env visaRequest (payment_run llm ops))) = Stripe \<and>
    resp_status (fst (processCharge env visaRequest (payment_run llm ops))) = Success \<and>
    resp_riskScore (fst (processCharge env visaRequest (payment_run llm ops))) < 0.3 \<and>
    tx_provider (last (transactions (snd (processCharge env visaRequest (payment_run llm ops)))))
      = Stripe \<and>
    tx_status (last (transactions (snd (processCharge env visaRequest (payment_run llm ops)))))
      = Success \<and>
    tx_riskScore (last (transactions (snd (processCharge env visaRequest (payment_run llm ops)))))
      < 0.3"
proof -
  let ?s = "calculateRiskScore fraudRules (env_random env) visaRequest"
  have s: "?s = env_random env * 0.1 + 0.05"
    using assms by (simp add: visa_score min_def max_def)
  have lt: "?s < 0.15"
    using assms(2) by (simp add: s)
  have prov: "determineProvider fraudRules ?s = Stripe"
    using lt by (simp add: determineProvider_def fraudRules_def)
  have "?s * 100 + 1 / 2 < 16"
    using lt by simp
  then have "\<lfloor>?s * 100 + 1 / 2\<rfloor> < 16"
    by (simp add: floor_less_iff)
  then have "real_of_int \<lfloor>?s * 100 + 1 / 2\<rfloor> \<le> 15"
    by linarith
  then have rd: "mathRound (?s * 100) / 100 < 0.3"
    by (simp add: mathRound_def)
  show ?thesis
    using lt prov rd
    by (simp add: processCharge_response processCharge_ledger payment_run_rules Let_def)
qed

theorem visa_charge_routed_to_stripe_witness:
  "resp_provider (fst (processCharge chargeEnv0 visaRequest (payment_run llmOff []))) = Stripe \<and>
   resp_status (fst (processCharge chargeEnv0 visaRequest (payment_run llmOff []))) = Success \<and>
   resp_riskScore (fst (processCharge chargeEnv0 visaRequest (payment_run llmOff []))) = 0.1"
proof -
  have r: "0 \<le> env_random chargeEnv0" "env_random chargeEnv0 < 1"
    by (simp_all add: chargeEnv0_def)
  have "resp_riskScore (fst (processCharge chargeEnv0 visaRequest (payment_run llmOff []))) = 0.1"
    by (simp add: processCharge_response payment_run_rules visa_score chargeEnv0_def
        mathRound_def Let_def)
  then show ?thesis
    using visa_charge_routed_to_stripe [OF r, of llmOff "[]"] by simp
qed

lemma new_record_ok:
  "provider_status_ok (last (transactions (snd (processCharge env request ps))))"
  by (simp add: processCharge_ledger provider_status_ok_def Let_def)

lemma payment_step_ok:
  assumes "list_all provider_status_ok (transactions ps)"
  shows "list_all provider_status_ok (transactions (payment_step ps op))"
proof (cases op)
  case (ProcessCharge env request)
  have "transactions (payment_step ps op) =
          transactions ps @ [last (transactions (snd (processCharge env request ps)))]"
    using ProcessCharge by (simp add: processCharge_ledger)
  then show ?thesis
    using assms new_record_ok [of env request ps] by simp
next
  case (GetFilteredTransactions fs)
  then show ?thesis
    using assms by (simp add: getFilteredTransactions_def newestFirst_def list_all_iff)
next
  case ClearTransactions
  then show ?thesis
    by (simp add: clearTransactions_def)
qed

lemma foldl_payment_step_ok:
  "list_all provider_status_ok (transactions ps) \<Longrightarrow>
   list_all provider_status_ok (transactions (foldl payment_step ps ops))"
  by (induction ops arbitrary: ps) (simp_all add: payment_step_ok)

lemma provider_status_ok_iff:
  "provider_status_ok t \<longleftrightarrow>
     ((tx_provider t = Blocked \<longleftrightarrow> tx_status t = StatusBlocked) \<and>
      (tx_provider t \<noteq> Blocked \<longrightarrow> tx_status t = Success))"
  unfolding provider_status_ok_def by blast

text \<open>
  C9. The record \<^verbatim>\<open>processCharge\<close> appends has provider blocked exactly when its
  status is blocked, and status success otherwise; and after any run of operations
  from the state the constructor builds, every record of the ledger is so.
\<close>

theorem ledger_provider_status:
  "(let t = last (transactions (snd (processCharge env request ps)))
    in (tx_provider t = Blocked \<longleftrightarrow> tx_status t = StatusBlocked) \<and>
       (tx_provider t \<noteq> Blocked \<longrightarrow> tx_status t = Success)) \<and>
   (\<forall>t \<in> set (transactions (payment_run llm ops)).
      (tx_provider t = Blocked \<longleftrightarrow> tx_status t = StatusBlocked) \<and>
      (tx_provider t \<noteq> Blocked \<longrightarrow> tx_status t = Success))"
proof -
  have "list_all provider_status_ok (transactions (newPaymentService llm))"
    by (simp add: newPaymentService_def)
  then have "list_all provider_status_ok (transactions (payment_run llm ops))"
    unfolding payment_run_def by (rule foldl_payment_step_ok)
  then have all: "\<forall>t \<in> set (transactions (payment_run llm ops)). provider_status_ok t"
    by (simp add: list_all_iff)
  show ?thesis
    unfolding Let_def
    using new_record_ok [of env request ps] all
    unfolding provider_status_ok_iff by blast
qed

theorem ledger_provider_status_witness:
  "map (\<lambda>t. (tx_provider t, tx_status t))
     (transactions (payment_run llmOff
        [ProcessCharge chargeEnv0 visaRequest, ProcessCharge chargeEnv0 riskyRequest,
         GetFilteredTransactions noFilters])) =
   [(Stripe, Success), (Blocked, StatusBlocked)]"
  using ledger_provider_status [of chargeEnv0 visaRequest "newPaymentService llmOff" llmOff
      "[ProcessCharge chargeEnv0 visaRequest, ProcessCharge chargeEnv0 riskyRequest,
        GetFilteredTransactions noFilters]"]
  by code_simp

section \<open>Properties of dates\<close>

lemma MonthFromTime_range: "0 \<le> MonthFromTime t \<and> MonthFromTime t \<le> 11"
  by (simp add: MonthFromTime_def Let_def)

lemma MakeDay_in_year:
  "0 \<le> m \<Longrightarrow> m \<le> 11 \<Longrightarrow>
     MakeDay y m dt = DayFromYear y + monthStart m (InLeapYear y) + dt - 1"
  by (simp add: MakeDay_def Let_def)

lemma day_split: "Day t * msPerDay + TimeWithinDay t = t"
  by (simp add: Day_def TimeWithinDay_def)

text \<open>Setting the day of the month to \<open>k\<close> more moves a local time by \<open>k\<close> days.\<close>

lemma shift_date:
  "MakeDate (MakeDay (YearFromTime l) (MonthFromTime l) (DateFromTime l + k)) (TimeWithinDay l) =
     l + k * msPerDay"
proof -
  have "MakeDay (YearFromTime l) (MonthFromTime l) (DateFromTime l + k) = Day l + k"
    using MonthFromTime_range [of l]
    by (simp add: MakeDay_in_year DateFromTime_def DayWithinYear_def)
  then have "MakeDate (MakeDay (YearFromTime l) (MonthFromTime l) (DateFromTime l + k))
      (TimeWithinDay l) = (Day l + k) * msPerDay + TimeWithinDay l"
    by (simp add: MakeDate_def)
  also have "\<dots> = l + k * msPerDay"
    using day_split [of l] by (simp add: algebra_simps)
  finally show ?thesis .
qed

lemma div_next:
  fixes a n :: int
  assumes "0 < n"
  shows "(a + 1) div n = (if n dvd a + 1 then a div n + 1 else a div n)"
proof (cases "a mod n + 1 = n")
  case True
  have e: "a = n * (a div n) + a mod n" by simp
  have "n * (a div n + 1) = n * (a div n) + n" by (simp add: distrib_left)
  then have "a + 1 = n * (a div n + 1) + 0"
    using e True by linarith
  then have "(a + 1) div n = a div n + 1" "(a + 1) mod n = 0"
    using assms int_div_pos_eq [of "a + 1" n "a div n + 1" 0]
      int_mod_pos_eq [of "a + 1" n "a div n + 1" 0] by simp_all
  then show ?thesis by (simp add: mod_eq_0_iff_dvd)
next
  case False
  have bounds: "0 \<le> a mod n" "a mod n < n" using assms by simp_all
  then have lt: "a mod n + 1 < n" using False by simp
  have e: "a = n * (a div n) + a mod n" by simp
  then have "a + 1 = n * (a div n) + (a mod n + 1)"
    by linarith
  then have "(a + 1) div n = a div n" "(a + 1) mod n = a mod n + 1"
    using bounds lt int_div_pos_eq [of "a + 1" n "a div n" "a mod n + 1"]
      int_mod_pos_eq [of "a + 1" n "a div n" "a mod n + 1"] by simp_all
  then show ?thesis using bounds by (simp flip: mod_eq_0_iff_dvd)
qed

lemma dvd_shift: "(n::int) dvd k \<Longrightarrow> n dvd y - k \<longleftrightarrow> n dvd y"
  by (simp add: dvd_diff_left_iff)

lemma DayFromYear_Suc: "DayFromYear (y + 1) = DayFromYear y + DaysInYear y"
proof -
  have a: "(y + 1 - 1969) div 4 = (if 4 dvd y then (y - 1969) div 4 + 1 else (y - 1969) div 4)"
    using div_next [of 4 "y - 1969"] dvd_shift [of 4 1968 y] by (simp add: algebra_simps)
  have b: "(y + 1 - 1901) div 100 = (if 100 dvd y then (y - 1901) div 100 + 1 else (y - 1901) div 100)"
    using div_next [of 100 "y - 1901"] dvd_shift [of 100 1900 y] by (simp add: algebra_simps)
  have c: "(y + 1 - 1601) div 400 = (if 400 dvd y then (y - 1601) div 400 + 1 else (y - 1601) div 400)"
    using div_next [of 400 "y - 1601"] dvd_shift [of 400 1600 y] by (simp add: algebra_simps)
  have d: "400 dvd y \<Longrightarrow> 100 dvd y" "100 dvd y \<Longrightarrow> 4 dvd y"
    using dvd_trans [of 100 400 y] dvd_trans [of 4 100 y] by simp_all
  show ?thesis
    unfolding DayFromYear_def DaysInYear_def a b c
    using d by (auto simp: mod_eq_0_iff_dvd)
qed

lemma DaysInYear_leap: "DaysInYear y = 365 + InLeapYear y"
  by (simp add: InLeapYear_def DaysInYear_def)

lemma InLeapYear_range: "0 \<le> InLeapYear y \<and> InLeapYear y \<le> 1"
  by (simp add: InLeapYear_def)

lemma month_cases:
  "0 \<le> m \<Longrightarrow> m \<le> 11 \<Longrightarrow>
     m = 0 \<or> m = 1 \<or> m = 2 \<or> m = 3 \<or> m = 4 \<or> m = 5 \<or> m = 6 \<or> m = 7 \<or> m = 8 \<or>
     m = 9 \<or> m = 10 \<or> m = (11::int)"
  by arith

lemma monthStart_next:
  assumes "0 \<le> m" "m < 11"
  shows "monthStart (m + 1) (InLeapYear y) = monthStart m (InLeapYear y) + DaysInMonth y m"
proof -
  have "m = 0 \<or> m = 1 \<or> m = 2 \<or> m = 3 \<or> m = 4 \<or> m = 5 \<or> m = 6 \<or> m = 7 \<or> m = 8 \<or>
     m = 9 \<or> m = 10 \<or> m = 11"
    using assms month_cases [of m] by simp
  then show ?thesis
    using assms by (elim disjE) (simp_all add: monthStart_def DaysInMonth_def)
qed

text \<open>Setting the month to the next one moves a local time by the length of its month.\<close>

lemma shift_month:
  "MakeDate (MakeDay (YearFromTime l) (MonthFromTime l + 1) (DateFromTime l)) (TimeWithinDay l) =
     l + DaysInMonth (YearFromTime l) (MonthFromTime l) * msPerDay"
proof -
  let ?y = "YearFromTime l" and ?m = "MonthFromTime l"
  have r: "0 \<le> ?m" "?m \<le> 11" using MonthFromTime_range [of l] by auto
  have "MakeDay ?y (?m + 1) (DateFromTime l) = Day l + DaysInMonth ?y ?m"
  proof (cases "?m = 11")
    case True
    then have "MakeDay ?y (?m + 1) (DateFromTime l) = DayFromYear (?y + 1) + DateFromTime l - 1"
      by (simp add: MakeDay_def Let_def monthStart_def)
    also have "\<dots> = Day l + 31"
      using True
      by (simp add: DayFromYear_Suc DaysInYear_leap DateFromTime_def DayWithinYear_def
          monthStart_def)
    finally show ?thesis using True by (simp add: DaysInMonth_def)
  next
    case False
    then have lt: "?m < 11" using r by simp
    then have "MakeDay ?y (?m + 1) (DateFromTime l) =
        DayFromYear ?y + monthStart (?m + 1) (InLeapYear ?y) + DateFromTime l - 1"
      using r by (simp add: MakeDay_in_year)
    also have "\<dots> = Day l + DaysInMonth ?y ?m"
      using monthStart_next [OF r(1) lt, of ?y]
      by (simp add: DateFromTime_def DayWithinYear_def)
    finally show ?thesis .
  qed
  then have "MakeDate (MakeDay ?y (?m + 1) (DateFromTime l)) (TimeWithinDay l) =
      (Day l + DaysInMonth ?y ?m) * msPerDay + TimeWithinDay l"
    by (simp add: MakeDate_def)
  also have "\<dots> = l + DaysInMonth ?y ?m * msPerDay"
    using day_split [of l] by (simp add: algebra_simps)
  finally show ?thesis .
qed

lemma monthStart_leap:
  assumes "0 \<le> m" "m \<le> 11"
  shows "monthStart m l' - monthStart m l = (if m \<le> 1 then 0 else l' - l)"
proof -
  have "m = 0 \<or> m = 1 \<or> m = 2 \<or> m = 3 \<or> m = 4 \<or> m = 5 \<or> m = 6 \<or> m = 7 \<or> m = 8 \<or>
     m = 9 \<or> m = 10 \<or> m = 11"
    using assms month_cases [of m] by simp
  then show ?thesis
    by (elim disjE) (simp_all add: monthStart_def)
qed

text \<open>
  Setting the year to the next one moves a local time by the length of the year ahead.
\<close>

lemma shift_year:
  "MakeDate (MakeDay (YearFromTime l + 1) (MonthFromTime l) (DateFromTime l)) (TimeWithinDay l) =
     l + (if MonthFromTime l \<le> 1 then DaysInYear (YearFromTime l)
          else DaysInYear (YearFromTime l + 1)) * msPerDay"
proof -
  let ?y = "YearFromTime l" and ?m = "MonthFromTime l"
  let ?n = "if ?m \<le> 1 then DaysInYear ?y else DaysInYear (?y + 1)"
  have r: "0 \<le> ?m" "?m \<le> 11" using MonthFromTime_range [of l] by auto
  have "MakeDay (?y + 1) ?m (DateFromTime l) =
      DayFromYear ?y + DaysInYear ?y + monthStart ?m (InLeapYear (?y + 1)) + DateFromTime l - 1"
    using r by (simp add: MakeDay_in_year DayFromYear_Suc)
  also have "\<dots> = Day l + DaysInYear ?y +
      (monthStart ?m (InLeapYear (?y + 1)) - monthStart ?m (InLeapYear ?y))"
    by (simp add: DateFromTime_def DayWithinYear_def)
  also have "\<dots> = Day l + ?n"
    using monthStart_leap [OF r, of "InLeapYear (?y + 1)" "InLeapYear ?y"]
    by (simp add: DaysInYear_leap)
  finally have "MakeDate (MakeDay (?y + 1) ?m (DateFromTime l)) (TimeWithinDay l) =
      (Day l + ?n) * msPerDay + TimeWithinDay l"
    by (simp add: MakeDate_def)
  also have "\<dots> = l + ?n * msPerDay"
    using day_split [of l] by (simp add: algebra_simps)
  finally show ?thesis .
qed

text \<open>
  \<^verbatim>\<open>calculateNextChargeDate\<close> adds the interval in local time: the result is the UTC
  time of the local time that lies the interval's days after the local time of the
  base date.
\<close>

lemma calculateNextChargeDate_interval:
  "calculateNextChargeDate tz iv t =
     UTC tz (LocalTime tz t + intervalDays iv (LocalTime tz t) * msPerDay)"
  by (cases iv)
    (simp_all add: calculateNextChargeDate_def intervalDays_def setDate_def getDate_def
      setMonth_def getMonth_def setFullYear_def getFullYear_def Let_def
      shift_date shift_month shift_year)

lemma intervalDays_pos: "1 \<le> intervalDays iv l"
  using InLeapYear_range [of "YearFromTime l"]
  by (cases iv) (simp_all add: intervalDays_def DaysInMonth_def DaysInYear_def)

lemma intervalDays_range:
  "intervalDays Daily l = 1 \<and> intervalDays Weekly l = 7 \<and>
   28 \<le> intervalDays Monthly l \<and> intervalDays Monthly l \<le> 31 \<and>
   365 \<le> intervalDays Yearly l \<and> intervalDays Yearly l \<le> 366"
  using InLeapYear_range [of "YearFromTime l"]
  by (simp add: intervalDays_def DaysInMonth_def DaysInYear_def)

lemma zone_shift: "localOffset tz u - utcOffset tz t < msPerDay"
  by transfer (simp add: abs_less_iff)

text \<open>The next charge date is later than its base date, in any zone.\<close>

lemma calculateNextChargeDate_future: "calculateNextChargeDate tz iv t > t"
proof -
  let ?l = "LocalTime tz t"
  let ?n = "intervalDays iv ?l"
  have "msPerDay \<le> ?n * msPerDay"
    using intervalDays_pos [of iv ?l] by (simp add: msPerDay_def)
  moreover have "localOffset tz (?l + ?n * msPerDay) - utcOffset tz t < msPerDay"
    by (rule zone_shift)
  ultimately show ?thesis
    by (simp add: calculateNextChargeDate_interval UTC_def LocalTime_def)
qed

lemma DaysInYear_pos: "365 \<le> DaysInYear y \<and> DaysInYear y \<le> 366"
  by (simp add: DaysInYear_def)

lemma DayFromYear_1970: "DayFromYear 1970 = 0"
  by (simp add: DayFromYear_def)

lemma DayFromYear_after:
  "0 \<le> k \<Longrightarrow> 365 * k \<le> DayFromYear (1970 + k) \<and> DayFromYear (1970 + k) \<le> 366 * k"
proof (induction k rule: int_ge_induct)
  case base
  then show ?case by (simp add: DayFromYear_1970)
next
  case (step i)
  have "DayFromYear (1970 + (i + 1)) = DayFromYear (1970 + i) + DaysInYear (1970 + i)"
    using DayFromYear_Suc [of "1970 + i"] by (simp add: add.assoc)
  then show ?case
    using step.IH DaysInYear_pos [of "1970 + i"] by auto
qed

lemma DayFromYear_before:
  "k \<le> 0 \<Longrightarrow> 366 * k \<le> DayFromYear (1970 + k) \<and> DayFromYear (1970 + k) \<le> 365 * k"
proof (induction k rule: int_le_induct)
  case base
  then show ?case by (simp add: DayFromYear_1970)
next
  case (step i)
  have "DayFromYear (1970 + i) = DayFromYear (1970 + (i - 1)) + DaysInYear (1970 + (i - 1))"
    using DayFromYear_Suc [of "1970 + (i - 1)"] by simp
  then show ?case
    using step.IH DaysInYear_pos [of "1970 + (i - 1)"] by auto
qed

lemma YearFromDay_bounds:
  defines "lo d \<equiv> 1970 + min (d div 365) (d div 366)"
    and "hi d \<equiv> 1970 + max (d div 365) (d div 366)"
  shows "DayFromYear (lo d) \<le> d \<and> d < DayFromYear (hi d + 1) \<and> lo d \<le> hi d"
proof (cases "0 \<le> d")
  case True
  then have k: "0 \<le> d div 366" "d div 366 \<le> d div 365" "0 \<le> d div 365 + 1"
    by (simp_all add: pos_imp_zdiv_nonneg_iff zdiv_mono2)
  have "DayFromYear (1970 + d div 366) \<le> 366 * (d div 366)"
    using DayFromYear_after [OF k(1)] by simp
  moreover have "366 * (d div 366) \<le> d" by simp
  moreover have "365 * (d div 365 + 1) \<le> DayFromYear (1970 + (d div 365 + 1))"
    using DayFromYear_after [OF k(3)] by simp
  moreover have "d < 365 * (d div 365 + 1)"
  proof -
    have "d mod 365 < 365" by simp
    moreover have "365 * (d div 365 + 1) = 365 * (d div 365) + 365" by simp
    moreover have "365 * (d div 365) + d mod 365 = d" by simp
    ultimately show ?thesis by linarith
  qed
  ultimately show ?thesis
    using k(2) by (simp add: lo_def hi_def min_def max_def add.assoc)
next
  case False
  then have neg: "d < 0" by simp
  then have k: "d div 365 \<le> 0" "d div 365 \<le> d div 366" "d div 366 + 1 \<le> 0"
    by (simp_all add: div_nonpos_pos_le0 zdiv_mono2_neg neg_imp_zdiv_neg_iff)
  have "DayFromYear (1970 + d div 365) \<le> 365 * (d div 365)"
    using DayFromYear_before [OF k(1)] by simp
  moreover have "365 * (d div 365) \<le> d" by simp
  moreover have "366 * (d div 366 + 1) \<le> DayFromYear (1970 + (d div 366 + 1))"
    using DayFromYear_before [OF k(3)] by simp
  moreover have "d < 366 * (d div 366 + 1)"
  proof -
    have "d mod 366 < 366" by simp
    moreover have "366 * (d div 366 + 1) = 366 * (d div 366) + 366" by simp
    moreover have "366 * (d div 366) + d mod 366 = d" by simp
    ultimately show ?thesis by linarith
  qed
  ultimately show ?thesis
    using k(2) by (simp add: lo_def hi_def min_def max_def add.assoc)
qed

lemma rev_upto_nth:
  "i < length [lo..hi] \<Longrightarrow> rev [lo..hi] ! i = hi - int i"
  by (simp add: rev_nth)

text \<open>
  \<open>YearFromDay\<close> is the year the day falls in: the year starts on or before the day,
  and the next year starts after it.
\<close>

lemma YearFromDay_correct:
  "DayFromYear (YearFromDay d) \<le> d \<and> d < DayFromYear (YearFromDay d + 1)"
proof -
  define lo where "lo = 1970 + min (d div 365) (d div 366)"
  define hi where "hi = 1970 + max (d div 365) (d div 366)"
  have b: "DayFromYear lo \<le> d" "d < DayFromYear (hi + 1)" "lo \<le> hi"
    using YearFromDay_bounds [of d] by (simp_all add: lo_def hi_def)
  let ?P = "\<lambda>y. DayFromYear y \<le> d"
  have "lo \<in> set (rev [lo..hi])" using b(3) by simp
  then obtain y where f: "find ?P (rev [lo..hi]) = Some y"
    using b(1) by (cases "find ?P (rev [lo..hi])") (auto simp: find_None_iff)
  then obtain i where i: "i < length (rev [lo..hi])" "?P (rev [lo..hi] ! i)"
    "y = rev [lo..hi] ! i" "\<forall>j<i. \<not> ?P (rev [lo..hi] ! j)"
    unfolding find_Some_iff by blast
  have y: "y = hi - int i" using i(1,3) by (simp add: rev_upto_nth)
  have "d < DayFromYear (y + 1)"
  proof (cases i)
    case 0
    then show ?thesis using y b(2) by simp
  next
    case (Suc j)
    then have "\<not> ?P (rev [lo..hi] ! j)" "j < length [lo..hi]" using i(1,4) by simp_all
    moreover have "rev [lo..hi] ! j = y + 1"
      using \<open>j < length [lo..hi]\<close> y Suc by (simp add: rev_upto_nth)
    ultimately show ?thesis by simp
  qed
  moreover have "YearFromDay d = y"
    using f by (simp add: YearFromDay_def lo_def hi_def Let_def)
  ultimately show ?thesis using i(2,3) by simp
qed

section \<open>Properties of the subscription service\<close>

lemma map_of_Some_key: "map_of xs k = Some v \<Longrightarrow> k \<in> fst ` set xs"
  by (metis map_of_eq_None_iff option.distinct(1))

text \<open>
  C3, as the code has it.  \<^verbatim>\<open>cancelSubscription\<close> returns false, and changes nothing,
  when the map has no subscription for the donor.  When it has one, active or already
  cancelled, the call sets \<^verbatim>\<open>isActive\<close> to false and returns true; cancelling the same
  donor again returns true again and changes nothing more.  Both outcomes are return
  values.
\<close>

theorem cancelSubscription_result:
  "(map_of (subscriptions svc) donor = None \<longrightarrow> cancelSubscription donor svc = (False, svc)) \<and>
   (map_of (subscriptions svc) donor = Some sub \<longrightarrow>
      fst (cancelSubscription donor svc) = True \<and>
      map_of (subscriptions (snd (cancelSubscription donor svc))) donor = Some (sub\<lparr>isActive := False\<rparr>) \<and>
      cancelSubscription donor (snd (cancelSubscription donor svc)) = (True, snd (cancelSubscription donor svc)))"
  by (simp add: cancelSubscription_def AList.update_conv')

theorem cancelSubscription_result_witness:
  "cancelSubscription ''nobody'' oneDonor = (False, oneDonor) \<and>
   fst (cancelSubscription ''donor_1'' oneDonor) = True \<and>
   map_option isActive (map_of (subscriptions (snd (cancelSubscription ''donor_1'' oneDonor))) ''donor_1'') = Some False \<and>
   fst (cancelSubscription ''donor_1'' (snd (cancelSubscription ''donor_1'' oneDonor))) = True"
  using cancelSubscription_result [of oneDonor "''nobody''"] cancelSubscription_result [of oneDonor "''donor_1''" "fst (createSubscription utcZone createEnv0 weeklyRequest newSubscriptionService)"]
  by code_simp

text \<open>
  C3 as stated fails on a double cancel: the second call finds the cancelled
  subscription still in the map and returns true, not false.
\<close>

theorem cancelSubscription_twice_counterexample:
  "fst (cancelSubscription ''donor_1'' oneDonor) = True \<and>
   fst (cancelSubscription ''donor_1'' (snd (cancelSubscription ''donor_1'' oneDonor))) \<noteq> False"
  by code_simp

text \<open>
  C10. \<^verbatim>\<open>cancelSubscription\<close> leaves the ledger of subscription transactions, the
  keys of the map and their order, and the subscription of every other donor as they
  were.  When the donor has no subscription the service is unchanged and the result is
  false; when it has one, the result is true and the stored subscription is the old one
  with \<^verbatim>\<open>isActive\<close> set to false, every other field as before.
\<close>

theorem cancelSubscription_frame:
  "sub_transactions (snd (cancelSubscription donor svc)) = sub_transactions svc \<and>
   map fst (subscriptions (snd (cancelSubscription donor svc))) = map fst (subscriptions svc) \<and>
   (\<forall>other. other \<noteq> donor \<longrightarrow>
      map_of (subscriptions (snd (cancelSubscription donor svc))) other =
      map_of (subscriptions svc) other) \<and>
   (case map_of (subscriptions svc) donor of
      None \<Rightarrow> cancelSubscription donor svc = (False, svc)
    | Some sub \<Rightarrow>
        fst (cancelSubscription donor svc) = True \<and>
        map_of (subscriptions (snd (cancelSubscription donor svc))) donor =
          Some (sub\<lparr>isActive := False\<rparr>))"
  by (auto simp: cancelSubscription_def AList.update_conv' AList.update_keys
      map_of_eq_None_iff map_of_Some_key split: option.splits)

theorem cancelSubscription_frame_witness:
  "sub_transactions (snd (cancelSubscription ''donor_1'' sweepRetried)) =
     sub_transactions sweepRetried \<and>
   map fst (subscriptions (snd (cancelSubscription ''donor_1'' sweepRetried))) = [''donor_1''] \<and>
   map_option (\<lambda>sub. (sub_amount sub, sub_interval sub, nextChargeAt sub, lastChargedAt sub,
                       tags sub, createdAt sub, isActive sub))
     (map_of (subscriptions (snd (cancelSubscription ''donor_1'' sweepRetried))) ''donor_1'') =
     Some (1500, Weekly, 1701209600001, Some 1700604800001,
           [''clean water'', ''education'', ''nepal''], 1700000000000, False) \<and>
   cancelSubscription ''donor_2'' sweepRetried = (False, sweepRetried)"
proof -
  have before:
    "map fst (subscriptions sweepRetried) = [''donor_1''] \<and>
     map_option (\<lambda>sub. (sub_amount sub, sub_interval sub, nextChargeAt sub, lastChargedAt sub,
                         tags sub, createdAt sub, isActive sub))
       (map_of (subscriptions sweepRetried) ''donor_1'') =
       Some (1500, Weekly, 1701209600001, Some 1700604800001,
             [''clean water'', ''education'', ''nepal''], 1700000000000, True) \<and>
     map_of (subscriptions sweepRetried) ''donor_2'' = None"
    by code_simp
  then obtain sub where sub: "map_of (subscriptions sweepRetried) ''donor_1'' = Some sub"
    by auto
  show ?thesis
    using before sub cancelSubscription_frame [of "''donor_1''" sweepRetried]
      cancelSubscription_frame [of "''donor_2''" sweepRetried]
    by auto
qed

text \<open>
  C5, as the code has it.  \<^verbatim>\<open>createSubscription\<close> reads the clock twice: once for
  \<^verbatim>\<open>createdAt\<close>, and once more, later, for the base date of the next charge.  The
  subscription it returns and stores is active.  Its \<^verbatim>\<open>nextChargeAt\<close> is later than the
  second reading, and is that reading plus the interval, added in the local time of the
  host: the UTC time of the local time that lies one day (daily), seven days (weekly),
  the length of the current local month (monthly) or the length of the year ahead
  (yearly) after the local time of the second reading.  For a weekly subscription this
  is 604800000 ms after the second reading when the zone has the same offset at both
  ends, and 604800000 ms after \<^verbatim>\<open>createdAt\<close> when, besides, the two readings are
  equal.
\<close>

theorem createSubscription_nextChargeAt:
  "(let sub = fst (createSubscription tz env request svc);
        base = LocalTime tz (ce_tBase env)
    in createdAt sub = ce_tCreated env \<and> isActive sub \<and>
       map_of (subscriptions (snd (createSubscription tz env request svc)))
         (sreq_donorId request) = Some sub \<and>
       nextChargeAt sub > ce_tBase env \<and>
       nextChargeAt sub =
         UTC tz (base + intervalDays (sreq_interval request) base * msPerDay) \<and>
       (sreq_interval request = Daily \<longrightarrow> nextChargeAt sub = UTC tz (base + 86400000)) \<and>
       (sreq_interval request = Weekly \<longrightarrow> nextChargeAt sub = UTC tz (base + 604800000)) \<and>
       (sreq_interval request = Monthly \<longrightarrow>
          nextChargeAt sub =
            UTC tz (base + DaysInMonth (YearFromTime base) (MonthFromTime base) * msPerDay)) \<and>
       (sreq_interval request = Yearly \<longrightarrow>
          nextChargeAt sub =
            UTC tz (base + (if MonthFromTime base \<le> 1 then DaysInYear (YearFromTime base)
                            else DaysInYear (YearFromTime base + 1)) * msPerDay)) \<and>
       (sreq_interval request = Weekly \<and>
        localOffset tz (base + 604800000) = utcOffset tz (ce_tBase env) \<longrightarrow>
          nextChargeAt sub = ce_tBase env + 604800000) \<and>
       (sreq_interval request = Weekly \<and>
        localOffset tz (base + 604800000) = utcOffset tz (ce_tBase env) \<and>
        ce_tBase env = ce_tCreated env \<longrightarrow>
          nextChargeAt sub = createdAt sub + 604800000))"
proof -
  let ?sub = "fst (createSubscription tz env request svc)"
  let ?base = "LocalTime tz (ce_tBase env)"
  have next_eq: "nextChargeAt ?sub =
      UTC tz (?base + intervalDays (sreq_interval request) ?base * msPerDay)"
    by (simp add: createSubscription_def Let_def calculateNextChargeDate_interval)
  have later: "nextChargeAt ?sub > ce_tBase env"
    using calculateNextChargeDate_future
      [where tz = tz and t = "ce_tBase env" and iv = "sreq_interval request"]
    by (simp add: createSubscription_def Let_def)
  have rest: "createdAt ?sub = ce_tCreated env \<and> isActive ?sub \<and>
       map_of (subscriptions (snd (createSubscription tz env request svc)))
         (sreq_donorId request) = Some ?sub"
    by (simp add: createSubscription_def Let_def AList.update_conv')
  have weekly: "nextChargeAt ?sub = ce_tBase env + 604800000"
    if "sreq_interval request = Weekly"
      and "localOffset tz (?base + 604800000) = utcOffset tz (ce_tBase env)"
    using that next_eq by (simp add: intervalDays_def msPerDay_def UTC_def LocalTime_def)
  show ?thesis
    unfolding Let_def
    using next_eq later rest weekly
    by (auto simp: intervalDays_def msPerDay_def)
qed

text \<open>
  Three weekly creations: in UTC with the second reading a millisecond after the
  first; in UTC with equal readings; and in New York on 1 November 2023, 08:00 local
  time, with equal readings, where the next charge is on 8 November, 08:00 local time,
  which is seven days and one hour later.
\<close>

theorem createSubscription_nextChargeAt_witness:
  "nextChargeAt (fst (createSubscription utcZone createEnv0 weeklyRequest
      newSubscriptionService)) = 1700000000001 + 604800000 \<and>
   nextChargeAt (fst (createSubscription utcZone createEnvNov1 weeklyRequest
      newSubscriptionService)) = 1698840000000 + 604800000 \<and>
   createdAt (fst (createSubscription utcZone createEnvNov1 weeklyRequest
      newSubscriptionService)) = 1698840000000 \<and>
   nextChargeAt (fst (createSubscription newYorkAutumn2023 createEnvNov1 weeklyRequest
      newSubscriptionService)) = 1698840000000 + 608400000"
proof -
  have req: "sreq_interval weeklyRequest = Weekly"
    by (simp add: weeklyRequest_def)
  have utc: "LocalTime utcZone t = t" "UTC utcZone t = t" "localOffset utcZone t = 0"
    "utcOffset utcZone t = 0" for t
    by (simp_all add: LocalTime_def UTC_def utcOffset.rep_eq localOffset.rep_eq utcZone.rep_eq)
  have ny: "UTC newYorkAutumn2023 (LocalTime newYorkAutumn2023 1698840000000 + 604800000) =
      1698840000000 + 608400000"
    by (simp add: LocalTime_def UTC_def utcOffset.rep_eq localOffset.rep_eq
        newYorkAutumn2023.rep_eq)
  show ?thesis
    using createSubscription_nextChargeAt [of utcZone createEnv0 weeklyRequest
        newSubscriptionService]
      createSubscription_nextChargeAt [of utcZone createEnvNov1 weeklyRequest
        newSubscriptionService]
      createSubscription_nextChargeAt [of newYorkAutumn2023 createEnvNov1 weeklyRequest
        newSubscriptionService]
    by (simp add: Let_def req utc ny createEnv0_def createEnvNov1_def)
qed

text \<open>
  C5 as stated fails when the clock ticks between the two readings: on a host in UTC,
  created at 1700000000000 with the second reading one millisecond later, the weekly
  subscription has its next charge seven days and one millisecond after \<^verbatim>\<open>createdAt\<close>.
\<close>

theorem createSubscription_weekly_counterexample:
  "createdAt (fst (createSubscription utcZone createEnv0 weeklyRequest
      newSubscriptionService)) = 1700000000000 \<and>
   nextChargeAt (fst (createSubscription utcZone createEnv0 weeklyRequest
      newSubscriptionService)) = 1700604800001 \<and>
   nextChargeAt (fst (createSubscription utcZone createEnv0 weeklyRequest
      newSubscriptionService)) \<noteq>
   createdAt (fst (createSubscription utcZone createEnv0 weeklyRequest
      newSubscriptionService)) + 7 * msPerDay"
  by code_simp

section \<open>Properties of the recurrence sweep\<close>

subsection \<open>The map\<close>

lemma set_update_subset: "set (AList.update k v al) \<subseteq> insert (k, v) (set al)"
  by (induction al) auto

lemma wf_update:
  assumes "service_wf svc" and "donorId v = k"
  shows "service_wf (svc\<lparr>subscriptions := AList.update k v (subscriptions svc)\<rparr>)"
  using assms set_update_subset [of k v "subscriptions svc"]
  by (auto simp: service_wf_def list_all_iff AList.distinct_update)

lemma wf_entry: "service_wf svc \<Longrightarrow> map_of (subscriptions svc) d = Some sub \<Longrightarrow> donorId sub = d"
  by (auto simp: service_wf_def list_all_iff dest: map_of_SomeD)

lemma wf_ledger [simp]:
  "service_wf (svc\<lparr>sub_transactions := txs\<rparr>) = service_wf svc"
  by (simp add: service_wf_def)

subsection \<open>One charge\<close>

lemma chargeSubscription_wf:
  assumes "service_wf svc"
  shows "service_wf (chargeSubscription tz env d svc)"
proof (cases "map_of (subscriptions svc) d")
  case None
  then show ?thesis using assms by (simp add: chargeSubscription_def)
next
  case (Some sub)
  have d: "donorId sub = d" using assms Some by (rule wf_entry)
  show ?thesis
    using Some assms d
      wf_update [of "svc\<lparr>sub_transactions := txs\<rparr>"
        "sub\<lparr>lastChargedAt := l, nextChargeAt := n\<rparr>" d for txs l n]
    by (simp add: chargeSubscription_def Let_def)
qed

lemma chargeIfDue_wf: "service_wf svc \<Longrightarrow> service_wf (chargeIfDue tz now env d svc)"
  by (simp add: chargeIfDue_def chargeSubscription_wf split: option.splits)

lemma chargeIfDue_other:
  "d' \<noteq> d \<Longrightarrow>
     map_of (subscriptions (chargeIfDue tz now env d svc)) d' = map_of (subscriptions svc) d'"
  by (simp add: chargeIfDue_def chargeSubscription_def Let_def AList.update_conv'
      split: option.splits)

lemma chargeIfDue_not_due:
  "\<forall>sub. map_of (subscriptions svc) d = Some sub \<longrightarrow> now < nextChargeAt sub \<Longrightarrow>
     chargeIfDue tz now env d svc = svc"
  by (auto simp: chargeIfDue_def split: option.splits)

lemma chargeIfDue_ledger:
  assumes "service_wf svc"
  shows "\<exists>new. sub_transactions (chargeIfDue tz now env d svc) = sub_transactions svc @ new \<and>
           length new \<le> 1 \<and>
           (\<forall>t \<in> set new. stx_donorId t = d \<and>
              (stx_status t = ChargeSuccess \<longrightarrow>
                 (\<exists>sub. map_of (subscriptions (chargeIfDue tz now env d svc)) d = Some sub \<and>
                        ae_tBase env < nextChargeAt sub)))"
proof (cases "map_of (subscriptions svc) d")
  case None
  then show ?thesis by (simp add: chargeIfDue_def)
next
  case (Some sub)
  show ?thesis
  proof (cases "now \<ge> nextChargeAt sub")
    case False
    then show ?thesis using Some by (simp add: chargeIfDue_def)
  next
    case True
    have d: "donorId sub = d" using assms Some by (rule wf_entry)
    show ?thesis
      using Some True d calculateNextChargeDate_future [where tz = tz and t = "ae_tBase env" and iv = "sub_interval sub"]
      by (simp add: chargeIfDue_def chargeSubscription_def Let_def AList.update_conv')
  qed
qed

subsection \<open>The loop\<close>

lemma chargeDue_wf: "service_wf svc \<Longrightarrow> service_wf (chargeDue tz now envs ds svc)"
  by (induction ds arbitrary: svc) (simp_all add: chargeIfDue_wf)

lemma chargeDue_other:
  "d \<notin> set ds \<Longrightarrow>
     map_of (subscriptions (chargeDue tz now envs ds svc)) d = map_of (subscriptions svc) d"
  by (induction ds arbitrary: svc) (auto simp: chargeIfDue_other)

text \<open>What a sweep over distinct donors adds to the ledger.\<close>

lemma chargeDue_ledger:
  assumes "service_wf svc" and "distinct ds"
  shows "\<exists>new. sub_transactions (chargeDue tz now envs ds svc) = sub_transactions svc @ new \<and>
           (\<forall>d. length (attemptsFor d new) \<le> 1) \<and>
           (\<forall>t \<in> set new. stx_donorId t \<in> set ds \<and>
              (stx_status t = ChargeSuccess \<longrightarrow>
                 (\<exists>sub. map_of (subscriptions (chargeDue tz now envs ds svc)) (stx_donorId t) = Some sub \<and>
                        ae_tBase (envs (stx_donorId t)) < nextChargeAt sub)))"
  using assms
proof (induction ds arbitrary: svc)
  case Nil
  then show ?case by (simp add: attemptsFor_def)
next
  case (Cons x ds)
  let ?svc1 = "chargeIfDue tz now (envs x) x svc"
  let ?svc2 = "chargeDue tz now envs ds ?svc1"
  from chargeIfDue_ledger [OF Cons.prems(1), of tz now "envs x" x]
  obtain n1 where n1: "sub_transactions ?svc1 = sub_transactions svc @ n1" "length n1 \<le> 1"
    and n1x: "\<forall>t \<in> set n1. stx_donorId t = x \<and>
              (stx_status t = ChargeSuccess \<longrightarrow>
                 (\<exists>sub. map_of (subscriptions ?svc1) x = Some sub \<and>
                        ae_tBase (envs x) < nextChargeAt sub))"
    by blast
  have wf1: "service_wf ?svc1" using Cons.prems(1) by (rule chargeIfDue_wf)
  have dist: "distinct ds" and xds: "x \<notin> set ds" using Cons.prems(2) by simp_all
  from Cons.IH [OF wf1 dist]
  obtain n2 where n2: "sub_transactions ?svc2 = sub_transactions ?svc1 @ n2"
    and n2c: "\<forall>d. length (attemptsFor d n2) \<le> 1"
    and n2x: "\<forall>t \<in> set n2. stx_donorId t \<in> set ds \<and>
              (stx_status t = ChargeSuccess \<longrightarrow>
                 (\<exists>sub. map_of (subscriptions ?svc2) (stx_donorId t) = Some sub \<and>
                        ae_tBase (envs (stx_donorId t)) < nextChargeAt sub))"
    by blast
  have keep: "map_of (subscriptions ?svc2) x = map_of (subscriptions ?svc1) x"
    using xds by (rule chargeDue_other)
  have ledger: "sub_transactions (chargeDue tz now envs (x # ds) svc) = sub_transactions svc @ (n1 @ n2)"
    using n1(1) n2 by simp
  have count: "length (attemptsFor d (n1 @ n2)) \<le> 1" for d
  proof (cases "d = x")
    case True
    have "attemptsFor x n2 = []"
      using n2x xds by (auto simp: attemptsFor_def filter_empty_conv)
    moreover have "length (attemptsFor x n1) \<le> 1"
      unfolding attemptsFor_def
      using n1(2) length_filter_le [of "\<lambda>t. stx_donorId t = x" n1] by linarith
    ultimately show ?thesis using True by (simp add: attemptsFor_def)
  next
    case False
    have "attemptsFor d n1 = []"
      using n1x False by (auto simp: attemptsFor_def filter_empty_conv)
    then show ?thesis using n2c by (simp add: attemptsFor_def)
  qed
  have each: "stx_donorId t \<in> set (x # ds) \<and>
              (stx_status t = ChargeSuccess \<longrightarrow>
                 (\<exists>sub. map_of (subscriptions (chargeDue tz now envs (x # ds) svc)) (stx_donorId t) = Some sub \<and>
                        ae_tBase (envs (stx_donorId t)) < nextChargeAt sub))"
    if "t \<in> set (n1 @ n2)" for t
  proof (cases "t \<in> set n1")
    case True
    then show ?thesis using n1x keep by auto
  next
    case False
    then have "t \<in> set n2" using that by simp
    then show ?thesis using n2x by auto
  qed
  show ?case
    using ledger count each by blast
qed

lemma chargeDue_not_due:
  assumes "service_wf svc"
    and "\<forall>sub. map_of (subscriptions svc) d = Some sub \<longrightarrow> now < nextChargeAt sub"
  shows "attemptsFor d (sub_transactions (chargeDue tz now envs ds svc)) =
         attemptsFor d (sub_transactions svc)"
  using assms
proof (induction ds arbitrary: svc)
  case Nil
  then show ?case by simp
next
  case (Cons x ds)
  let ?svc1 = "chargeIfDue tz now (envs x) x svc"
  have wf1: "service_wf ?svc1" using Cons.prems(1) by (rule chargeIfDue_wf)
  show ?case
  proof (cases "x = d")
    case True
    then have "?svc1 = svc" using Cons.prems(2) by (simp add: chargeIfDue_not_due)
    then show ?thesis using Cons.IH [OF Cons.prems] by simp
  next
    case False
    from chargeIfDue_ledger [OF Cons.prems(1), of tz now "envs x" x]
    obtain n1 where n1: "sub_transactions ?svc1 = sub_transactions svc @ n1"
      and n1x: "\<forall>t \<in> set n1. stx_donorId t = x" by blast
    have same: "attemptsFor d (sub_transactions ?svc1) = attemptsFor d (sub_transactions svc)"
      using n1 n1x False by (auto simp: attemptsFor_def filter_empty_conv)
    have entry: "\<forall>sub. map_of (subscriptions ?svc1) d = Some sub \<longrightarrow> now < nextChargeAt sub"
      using Cons.prems(2) False by (simp add: chargeIfDue_other)
    show ?thesis
      using Cons.IH [OF wf1 entry] same by simp
  qed
qed

subsection \<open>The snapshot\<close>

lemma snapshot_distinct:
  assumes "service_wf svc"
  shows "distinct (map donorId (getActiveSubscriptions svc))"
proof -
  let ?vals = "map snd (subscriptions svc)"
  have eq: "map donorId ?vals = map fst (subscriptions svc)"
    using assms by (auto simp: service_wf_def list_all_iff)
  have "distinct (map donorId ?vals)"
    unfolding eq using assms by (simp add: service_wf_def)
  then have "distinct (map donorId (filter isActive ?vals))"
    by (rule distinct_map_filter)
  then have "distinct (filter isActive ?vals) \<and> inj_on donorId (set (filter isActive ?vals))"
    by (simp add: distinct_map)
  then show ?thesis
    by (simp add: getActiveSubscriptions_def distinct_map)
qed

subsection \<open>Reachable services\<close>

lemma subscription_step_wf: "service_wf svc \<Longrightarrow> service_wf (subscription_step tz svc op)"
proof (cases op)
  case (CreateSubscription env request)
  assume "service_wf svc"
  then show ?thesis
    using CreateSubscription wf_update [of svc _ "sreq_donorId request"]
    by (simp add: createSubscription_def Let_def)
next
  case (CancelSubscription d)
  assume wf: "service_wf svc"
  show ?thesis
  proof (cases "map_of (subscriptions svc) d")
    case None
    then show ?thesis using wf CancelSubscription by (simp add: cancelSubscription_def)
  next
    case (Some sub)
    then show ?thesis
      using wf CancelSubscription wf_update [of svc "sub\<lparr>isActive := False\<rparr>" d] wf_entry [OF wf Some]
      by (simp add: cancelSubscription_def)
  qed
next
  case (Sweep now envs)
  assume "service_wf svc"
  then show ?thesis
    using Sweep by (simp add: processRecurringCharges_def chargeDue_wf)
next
  case ClearAll
  then show ?thesis by (simp add: clearAll_def service_wf_def)
qed

lemma foldl_subscription_step_wf:
  "service_wf svc \<Longrightarrow> service_wf (foldl (subscription_step tz) svc ops)"
  by (induction ops arbitrary: svc) (simp_all add: subscription_step_wf)

lemma subscription_run_wf: "service_wf (subscription_run tz ops)"
  unfolding subscription_run_def
  by (rule foldl_subscription_step_wf) (simp add: service_wf_def newSubscriptionService_def)

subsection \<open>Two sweeps\<close>

lemma sweep_ledger:
  assumes "service_wf svc"
  shows "sub_transactions (processRecurringCharges tz now envs svc) =
           sub_transactions svc @ newTransactions svc (processRecurringCharges tz now envs svc) \<and>
         (\<forall>d. length (attemptsFor d (newTransactions svc (processRecurringCharges tz now envs svc))) \<le> 1) \<and>
         (\<forall>t \<in> set (newTransactions svc (processRecurringCharges tz now envs svc)).
              stx_status t = ChargeSuccess \<longrightarrow>
                 (\<exists>sub. map_of (subscriptions (processRecurringCharges tz now envs svc)) (stx_donorId t) = Some sub \<and>
                        ae_tBase (envs (stx_donorId t)) < nextChargeAt sub))"
proof -
  from chargeDue_ledger [OF assms snapshot_distinct [OF assms], of tz now envs]
  obtain new where new: "sub_transactions (processRecurringCharges tz now envs svc) = sub_transactions svc @ new"
    and rest: "\<forall>d. length (attemptsFor d new) \<le> 1"
      "\<forall>t \<in> set new. stx_status t = ChargeSuccess \<longrightarrow>
                 (\<exists>sub. map_of (subscriptions (processRecurringCharges tz now envs svc)) (stx_donorId t) = Some sub \<and>
                        ae_tBase (envs (stx_donorId t)) < nextChargeAt sub)"
    unfolding processRecurringCharges_def by blast
  have "newTransactions svc (processRecurringCharges tz now envs svc) = new"
    using new by (simp add: newTransactions_def)
  then show ?thesis using new rest by simp
qed


lemma chargeIfDue_attempt:
  assumes "service_wf svc"
    and "sub_transactions (chargeIfDue tz now env d svc) = sub_transactions svc @ new"
    and "t \<in> set new"
  shows "\<exists>sub. map_of (subscriptions svc) d = Some sub \<and> nextChargeAt sub \<le> now \<and>
           (stx_status t = ChargeFailed \<longrightarrow> subscriptions (chargeIfDue tz now env d svc) = subscriptions svc)"
proof (cases "map_of (subscriptions svc) d")
  case None
  then show ?thesis using assms by (simp add: chargeIfDue_def)
next
  case (Some sub)
  show ?thesis
  proof (cases "now \<ge> nextChargeAt sub")
    case False
    then show ?thesis using Some assms by (simp add: chargeIfDue_def)
  next
    case True
    then show ?thesis
      using Some assms
      by (auto simp: chargeIfDue_def chargeSubscription_def Let_def split: if_splits)
  qed
qed

lemma chargeIfDue_due:
  assumes "service_wf svc" and "map_of (subscriptions svc) d = Some sub"
    and "nextChargeAt sub \<le> now"
  shows "\<exists>t. sub_transactions (chargeIfDue tz now env d svc) = sub_transactions svc @ [t] \<and>
             stx_donorId t = d"
  using assms wf_entry [OF assms(1,2)]
  by (simp add: chargeIfDue_def chargeSubscription_def Let_def)

lemma chargeDue_frame:
  assumes "service_wf svc" and "distinct ds" and "d \<notin> set ds"
  shows "attemptsFor d (sub_transactions (chargeDue tz now envs ds svc)) =
         attemptsFor d (sub_transactions svc)"
proof -
  from chargeDue_ledger [OF assms(1,2), of tz now envs]
  obtain new where "sub_transactions (chargeDue tz now envs ds svc) = sub_transactions svc @ new"
    and "\<forall>t \<in> set new. stx_donorId t \<in> set ds" by blast
  then show ?thesis
    using assms(3) by (auto simp: attemptsFor_def filter_empty_conv)
qed

lemma chargeDue_failed:
  assumes "service_wf svc" and "distinct ds"
    and "sub_transactions (chargeDue tz now envs ds svc) = sub_transactions svc @ new"
    and "t \<in> set new" and "stx_status t = ChargeFailed"
  shows "\<exists>sub. map_of (subscriptions svc) (stx_donorId t) = Some sub \<and> nextChargeAt sub \<le> now \<and>
           map_of (subscriptions (chargeDue tz now envs ds svc)) (stx_donorId t) = Some sub"
  using assms
proof (induction ds arbitrary: svc new)
  case Nil
  then show ?case by simp
next
  case (Cons x ds)
  let ?svc1 = "chargeIfDue tz now (envs x) x svc"
  let ?svc2 = "chargeDue tz now envs ds ?svc1"
  have wf1: "service_wf ?svc1" using Cons.prems(1) by (rule chargeIfDue_wf)
  have dist: "distinct ds" and xds: "x \<notin> set ds" using Cons.prems(2) by simp_all
  from chargeIfDue_ledger [OF Cons.prems(1), of tz now "envs x" x]
  obtain n1 where n1: "sub_transactions ?svc1 = sub_transactions svc @ n1"
    and n1x: "\<forall>t \<in> set n1. stx_donorId t = x" by blast
  from chargeDue_ledger [OF wf1 dist, of tz now envs]
  obtain n2 where n2: "sub_transactions ?svc2 = sub_transactions ?svc1 @ n2"
    and n2x: "\<forall>t \<in> set n2. stx_donorId t \<in> set ds" by blast
  have new: "new = n1 @ n2" using Cons.prems(3) n1 n2 by simp
  show ?case
  proof (cases "t \<in> set n1")
    case True
    then have tx: "stx_donorId t = x" using n1x by simp
    from chargeIfDue_attempt [OF Cons.prems(1) n1 True] Cons.prems(5)
    obtain sub where sub: "map_of (subscriptions svc) x = Some sub" "nextChargeAt sub \<le> now"
      "subscriptions ?svc1 = subscriptions svc" by blast
    have "map_of (subscriptions ?svc2) x = map_of (subscriptions ?svc1) x"
      using xds by (rule chargeDue_other)
    then show ?thesis using sub tx by simp
  next
    case False
    then have t2: "t \<in> set n2" using Cons.prems(4) new by simp
    then have ne: "stx_donorId t \<noteq> x" using n2x xds by auto
    from Cons.IH [OF wf1 dist n2 t2 Cons.prems(5)]
    obtain sub where "map_of (subscriptions ?svc1) (stx_donorId t) = Some sub" "nextChargeAt sub \<le> now"
      "map_of (subscriptions ?svc2) (stx_donorId t) = Some sub" by blast
    then show ?thesis using ne by (simp add: chargeIfDue_other)
  qed
qed

lemma chargeDue_due:
  assumes "service_wf svc" and "distinct ds" and "d \<in> set ds"
    and "map_of (subscriptions svc) d = Some sub" and "nextChargeAt sub \<le> now"
  shows "length (attemptsFor d (sub_transactions (chargeDue tz now envs ds svc))) =
         length (attemptsFor d (sub_transactions svc)) + 1"
  using assms
proof (induction ds arbitrary: svc)
  case Nil
  then show ?case by simp
next
  case (Cons x ds)
  let ?svc1 = "chargeIfDue tz now (envs x) x svc"
  have wf1: "service_wf ?svc1" using Cons.prems(1) by (rule chargeIfDue_wf)
  have dist: "distinct ds" and xds: "x \<notin> set ds" using Cons.prems(2) by simp_all
  show ?case
  proof (cases "x = d")
    case True
    from chargeIfDue_due [OF Cons.prems(1) Cons.prems(4,5), of tz "envs d"]
    obtain t where "sub_transactions (chargeIfDue tz now (envs d) d svc) = sub_transactions svc @ [t]"
      "stx_donorId t = d" by blast
    then have "length (attemptsFor d (sub_transactions ?svc1)) =
        length (attemptsFor d (sub_transactions svc)) + 1"
      using True by (simp add: attemptsFor_def)
    moreover have "attemptsFor d (sub_transactions (chargeDue tz now envs ds ?svc1)) =
        attemptsFor d (sub_transactions ?svc1)"
      using wf1 dist xds True by (simp add: chargeDue_frame)
    ultimately show ?thesis by simp
  next
    case False
    from chargeIfDue_ledger [OF Cons.prems(1), of tz now "envs x" x]
    obtain n1 where n1: "sub_transactions ?svc1 = sub_transactions svc @ n1"
      and n1x: "\<forall>t \<in> set n1. stx_donorId t = x" by blast
    have same: "attemptsFor d (sub_transactions ?svc1) = attemptsFor d (sub_transactions svc)"
      using n1 n1x False by (auto simp: attemptsFor_def filter_empty_conv)
    have entry: "map_of (subscriptions ?svc1) d = Some sub"
      using Cons.prems(4) False by (simp add: chargeIfDue_other)
    have "d \<in> set ds" using Cons.prems(3) False by simp
    from Cons.IH [OF wf1 dist this entry Cons.prems(5)] same
    show ?thesis by simp
  qed
qed

lemma snapshot_donors:
  assumes "service_wf svc"
  shows "d \<in> set (map donorId (getActiveSubscriptions svc)) \<longleftrightarrow>
         (\<exists>sub. map_of (subscriptions svc) d = Some sub \<and> isActive sub)"
proof
  assume "d \<in> set (map donorId (getActiveSubscriptions svc))"
  then obtain k sub where in_map: "(k, sub) \<in> set (subscriptions svc)"
    and act: "isActive sub" and d: "donorId sub = d"
    by (auto simp: getActiveSubscriptions_def)
  have "donorId sub = k"
    using assms in_map by (auto simp: service_wf_def list_all_iff)
  moreover have "map_of (subscriptions svc) k = Some sub"
    using assms in_map by (simp add: service_wf_def)
  ultimately show "\<exists>sub. map_of (subscriptions svc) d = Some sub \<and> isActive sub"
    using act d by auto
next
  assume "\<exists>sub. map_of (subscriptions svc) d = Some sub \<and> isActive sub"
  then obtain sub where sub: "map_of (subscriptions svc) d = Some sub" "isActive sub" by blast
  then have "(d, sub) \<in> set (subscriptions svc)" by (simp add: map_of_SomeD)
  then have "sub \<in> set (getActiveSubscriptions svc)"
    using sub(2) by (force simp: getActiveSubscriptions_def)
  moreover have "donorId sub = d" using assms sub(1) by (rule wf_entry)
  ultimately show "d \<in> set (map donorId (getActiveSubscriptions svc))" by force
qed

lemma sweep_failed:
  assumes "service_wf svc"
    and "t \<in> set (newTransactions svc (processRecurringCharges tz now envs svc))"
    and "stx_status t = ChargeFailed"
  shows "\<exists>sub. map_of (subscriptions (processRecurringCharges tz now envs svc)) (stx_donorId t) = Some sub \<and>
           nextChargeAt sub \<le> now \<and> isActive sub"
proof -
  let ?ds = "map donorId (getActiveSubscriptions svc)"
  note l = sweep_ledger [OF assms(1), of tz now envs]
  from chargeDue_ledger [OF assms(1) snapshot_distinct [OF assms(1)], of tz now envs]
  have "stx_donorId t \<in> set ?ds"
    using assms(2) l unfolding processRecurringCharges_def by (metis same_append_eq)
  then obtain sub0 where sub0: "map_of (subscriptions svc) (stx_donorId t) = Some sub0" "isActive sub0"
    using snapshot_donors [OF assms(1)] by blast
  from chargeDue_failed [OF assms(1) snapshot_distinct [OF assms(1)], of tz now envs _ t]
    l assms(2,3)
  obtain sub where "map_of (subscriptions svc) (stx_donorId t) = Some sub" "nextChargeAt sub \<le> now"
    "map_of (subscriptions (processRecurringCharges tz now envs svc)) (stx_donorId t) = Some sub"
    unfolding processRecurringCharges_def by blast
  then show ?thesis using sub0 by auto
qed

lemma sweep_due:
  assumes "service_wf svc"
    and "map_of (subscriptions svc) d = Some sub" and "isActive sub" and "nextChargeAt sub \<le> now"
  shows "length (attemptsFor d (newTransactions svc (processRecurringCharges tz now envs svc))) = 1"
proof -
  have "d \<in> set (map donorId (getActiveSubscriptions svc))"
    using snapshot_donors [OF assms(1)] assms(2,3) by blast
  from chargeDue_due [OF assms(1) snapshot_distinct [OF assms(1)] this assms(2,4), of tz envs]
  have "length (attemptsFor d (sub_transactions (processRecurringCharges tz now envs svc))) =
      length (attemptsFor d (sub_transactions svc)) + 1"
    by (simp add: processRecurringCharges_def)
  moreover have "attemptsFor d (sub_transactions (processRecurringCharges tz now envs svc)) =
      attemptsFor d (sub_transactions svc) @
      attemptsFor d (newTransactions svc (processRecurringCharges tz now envs svc))"
    using sweep_ledger [OF assms(1), of tz now envs] by (metis attemptsFor_def filter_append)
  ultimately show ?thesis by simp
qed

text \<open>
  C4, as the code has it.  The service is in any state a run of operations reaches.  A
  first sweep runs at \<open>now1\<close>, and a second sweep starts at \<open>now2\<close>, not before the
  first and no later than the clock readings the first one's charges took (no time has
  elapsed).  Each sweep only appends to the ledger, and appends at most one charge
  attempt for any donor.  A subscription that the first sweep charged with success is
  not attempted by the second.  A subscription whose charge failed in the first sweep
  is attempted once more by the second: the failure leaves \<^verbatim>\<open>nextChargeAt\<close> alone,
  and the code has no guard that would skip it.
\<close>

theorem back_to_back_sweeps:
  assumes "now1 \<le> now2" and "\<forall>d. now2 \<le> ae_tBase (envs1 d)"
  shows
    "(let s0 = subscription_run tz ops;
          s1 = processRecurringCharges tz now1 envs1 s0;
          s2 = processRecurringCharges tz now2 envs2 s1
      in sub_transactions s1 = sub_transactions s0 @ newTransactions s0 s1 \<and>
         sub_transactions s2 = sub_transactions s1 @ newTransactions s1 s2 \<and>
         length (attemptsFor d (newTransactions s0 s1)) \<le> 1 \<and>
         length (attemptsFor d (newTransactions s1 s2)) \<le> 1 \<and>
         ((\<exists>t \<in> set (newTransactions s0 s1). stx_donorId t = d \<and> stx_status t = ChargeSuccess) \<longrightarrow>
            attemptsFor d (newTransactions s1 s2) = []) \<and>
         ((\<exists>t \<in> set (newTransactions s0 s1). stx_donorId t = d \<and> stx_status t = ChargeFailed) \<longrightarrow>
            length (attemptsFor d (newTransactions s1 s2)) = 1))"
proof -
  let ?s0 = "subscription_run tz ops"
  let ?s1 = "processRecurringCharges tz now1 envs1 ?s0"
  let ?s2 = "processRecurringCharges tz now2 envs2 ?s1"
  have wf0: "service_wf ?s0" by (rule subscription_run_wf)
  have wf1: "service_wf ?s1"
    using wf0 by (simp add: processRecurringCharges_def chargeDue_wf)
  note l1 = sweep_ledger [OF wf0, of tz now1 envs1]
  note l2 = sweep_ledger [OF wf1, of tz now2 envs2]
  have none: "attemptsFor d (newTransactions ?s1 ?s2) = []"
    if "\<exists>t \<in> set (newTransactions ?s0 ?s1). stx_donorId t = d \<and> stx_status t = ChargeSuccess"
  proof -
    from that l1 obtain sub where sub: "map_of (subscriptions ?s1) d = Some sub"
      "ae_tBase (envs1 d) < nextChargeAt sub" by blast
    then have "\<forall>sub. map_of (subscriptions ?s1) d = Some sub \<longrightarrow> now2 < nextChargeAt sub"
      using assms(2) by (auto intro: le_less_trans)
    from chargeDue_not_due [OF wf1 this]
    have "attemptsFor d (sub_transactions ?s2) = attemptsFor d (sub_transactions ?s1)"
      by (simp add: processRecurringCharges_def)
    moreover have "attemptsFor d (sub_transactions ?s2) =
        attemptsFor d (sub_transactions ?s1) @ attemptsFor d (newTransactions ?s1 ?s2)"
      using l2 by (metis attemptsFor_def filter_append)
    ultimately show ?thesis by simp
  qed
  have again: "length (attemptsFor d (newTransactions ?s1 ?s2)) = 1"
    if "\<exists>t \<in> set (newTransactions ?s0 ?s1). stx_donorId t = d \<and> stx_status t = ChargeFailed"
  proof -
    from that sweep_failed [OF wf0, of _ tz now1 envs1]
    obtain sub where "map_of (subscriptions ?s1) d = Some sub" "nextChargeAt sub \<le> now1"
      "isActive sub" by blast
    then show ?thesis
      using sweep_due [OF wf1, of d sub now2 tz envs2] assms(1) by simp
  qed
  show ?thesis
    unfolding Let_def using l1 l2 none again by blast
qed

theorem back_to_back_sweeps_witness:
  "map stx_status
     (newTransactions oneDonor
        (processRecurringCharges utcZone 1700604800001 (attemptAt 1700604800001 0.5) oneDonor)) =
     [ChargeSuccess] \<and>
   newTransactions
     (processRecurringCharges utcZone 1700604800001 (attemptAt 1700604800001 0.5) oneDonor)
     (processRecurringCharges utcZone 1700604800001 (attemptAt 1700604800001 0.5)
        (processRecurringCharges utcZone 1700604800001 (attemptAt 1700604800001 0.5) oneDonor)) = [] \<and>
   map stx_status
     (newTransactions oneDonor
        (processRecurringCharges utcZone 1700604800001 (attemptAt 1700604800001 0.01) oneDonor)) =
     [ChargeFailed] \<and>
   length (attemptsFor ''donor_1''
     (newTransactions
        (processRecurringCharges utcZone 1700604800001 (attemptAt 1700604800001 0.01) oneDonor)
        (processRecurringCharges utcZone 1700604800001 (attemptAt 1700604800001 0.5)
           (processRecurringCharges utcZone 1700604800001 (attemptAt 1700604800001 0.01) oneDonor)))) = 1"
proof -
  have le: "(1700604800001::int) \<le> 1700604800001"
    by simp
  have frozen: "\<forall>d. (1700604800001::int) \<le> ae_tBase (attemptAt 1700604800001 r d)" for r
    by (simp add: attemptAt_def)
  from back_to_back_sweeps [OF le frozen [of "0.5"],
      of utcZone "[CreateSubscription createEnv0 weeklyRequest]" "attemptAt 1700604800001 0.5"
        "''donor_1''"]
    back_to_back_sweeps [OF le frozen [of "0.01"],
      of utcZone "[CreateSubscription createEnv0 weeklyRequest]" "attemptAt 1700604800001 0.5"
        "''donor_1''"]
  show ?thesis
    by code_simp
qed

text \<open>
  C4 as stated fails when the first charge fails: the second sweep, at the same
  instant, attempts the same subscription again, and the two sweeps leave two charge
  attempts for the donor.
\<close>

theorem back_to_back_sweeps_counterexample:
  "map stx_status (attemptsFor ''donor_1'' (newTransactions oneDonor sweepFailed)) =
     [ChargeFailed] \<and>
   map stx_status (attemptsFor ''donor_1'' (newTransactions sweepFailed sweepRetried)) =
     [ChargeSuccess] \<and>
   length (attemptsFor ''donor_1'' (newTransactions oneDonor sweepRetried)) = 2"
  by code_simp

end
